theory Spec2Isabelle
  imports Complex_Main
begin

section \<open>Text: Python strings as lists of code points\<close>

text \<open>
  A Python \<open>str\<close> is a sequence of Unicode code points, modelled as a list of
  integers. The patterns of the analyzer use two characters beyond ASCII, the bullet
  U+2022 and the en dash U+2013, which this representation keeps.

  Whitespace (\<open>str.split\<close>, \<open>str.strip\<close>, the class \<open>\\s\<close>) is CPython's full list.
  The classes \<open>\\d\<close> and \<open>\\w\<close>, \<open>str.lower\<close> and case-insensitive comparison are
  those of ASCII: a code point from 128 on is taken to be caseless and neither a digit
  nor a word character. The model is therefore exact on texts whose characters beyond
  ASCII are punctuation or symbols, such as the two above.
\<close>

type_synonym uchar = int
type_synonym ustr = "uchar list"

definition u :: "string \<Rightarrow> ustr" where
  "u s = map of_char s"

definition is_space :: "uchar \<Rightarrow> bool" where
  "is_space c \<longleftrightarrow>
     (9 \<le> c \<and> c \<le> 13) \<or> (28 \<le> c \<and> c \<le> 32) \<or> c = 133 \<or> c = 160 \<or> c = 5760 \<or>
     (8192 \<le> c \<and> c \<le> 8202) \<or> c = 8232 \<or> c = 8233 \<or> c = 8239 \<or> c = 8287 \<or> c = 12288"

definition is_digit :: "uchar \<Rightarrow> bool" where
  "is_digit c \<longleftrightarrow> 48 \<le> c \<and> c \<le> 57"

definition is_word :: "uchar \<Rightarrow> bool" where
  "is_word c \<longleftrightarrow> is_digit c \<or> (65 \<le> c \<and> c \<le> 90) \<or> (97 \<le> c \<and> c \<le> 122) \<or> c = 95"

definition lower_char :: "uchar \<Rightarrow> uchar" where
  "lower_char c = (if 65 \<le> c \<and> c \<le> 90 then c + 32 else c)"

definition lower :: "ustr \<Rightarrow> ustr" where
  "lower s = map lower_char s"

text \<open>\<open>str.split()\<close> without arguments: the maximal runs of non-whitespace.\<close>

primrec split_acc :: "ustr \<Rightarrow> ustr \<Rightarrow> ustr list" where
  "split_acc [] cur = (if cur = [] then [] else [cur])"
| "split_acc (c # cs) cur =
     (if is_space c then (if cur = [] then split_acc cs [] else cur # split_acc cs [])
      else split_acc cs (cur @ [c]))"

definition split_ws :: "ustr \<Rightarrow> ustr list" where
  "split_ws s = split_acc s []"

text \<open>\<open>str.split(sep)\<close> for a one-character separator: empty pieces are kept.\<close>

fun split_on :: "uchar \<Rightarrow> ustr \<Rightarrow> ustr list" where
  "split_on sep [] = [[]]"
| "split_on sep (c # cs) =
     (if c = sep then [] # split_on sep cs
      else (case split_on sep cs of [] \<Rightarrow> [[c]] | w # ws \<Rightarrow> (c # w) # ws))"

definition strip :: "ustr \<Rightarrow> ustr" where
  "strip s = rev (dropWhile is_space (rev (dropWhile is_space s)))"

text \<open>\<open>sub in s\<close> on strings.\<close>

fun contains :: "ustr \<Rightarrow> ustr \<Rightarrow> bool" where
  "contains [] sub = (sub = [])"
| "contains (c # cs) sub = (take (length sub) (c # cs) = sub \<or> contains cs sub)"

definition endswith :: "ustr \<Rightarrow> ustr \<Rightarrow> bool" where
  "endswith s suf \<longleftrightarrow> length suf \<le> length s \<and> drop (length s - length suf) s = suf"

text \<open>\<open>s.replace(c, '')\<close> for a one-character \<open>c\<close>.\<close>

definition remove_char :: "uchar \<Rightarrow> ustr \<Rightarrow> ustr" where
  "remove_char c s = filter (\<lambda>x. x \<noteq> c) s"

text \<open>The line feed, and \<open>'\\n'.join(lines)\<close>.\<close>

definition newline :: uchar where
  "newline = 10"

fun join_lines :: "ustr list \<Rightarrow> ustr" where
  "join_lines [] = []"
| "join_lines [l] = l"
| "join_lines (l # ls) = l @ newline # join_lines ls"

section \<open>Regular expressions: the backtracking matcher of \<open>re\<close>\<close>

text \<open>
  The patterns of the analyzer are kept as terms. \<open>ends\<close> lists, in the order in which
  a backtracking matcher tries them, every way a pattern can match from a position:
  the end position and the capture groups. Alternation is ordered, \<open>?\<close> and \<open>*\<close> are
  greedy. The head of the list is the match \<open>re\<close> reports.
\<close>

datatype rx =
    Empty
  | Chr uchar
  | Cls "uchar \<Rightarrow> bool"
  | Seq rx rx
  | Alt rx rx
  | Opt rx
  | Star rx
  | Grp nat rx
  | WordB
  | Bol

text \<open>
  A matcher state: the position, the character before it (if any), the text from the
  position on, and the text captured by each group so far.
\<close>

type_synonym caps = "nat \<Rightarrow> ustr option"
type_synonym mstate = "nat \<times> uchar option \<times> ustr \<times> caps"

definition pos :: "mstate \<Rightarrow> nat" where
  "pos st = fst st"

definition rest :: "mstate \<Rightarrow> ustr" where
  "rest st = fst (snd (snd st))"

definition chr_eq :: "bool \<Rightarrow> uchar \<Rightarrow> uchar \<Rightarrow> bool" where
  "chr_eq ic a b = (if ic then lower_char a = lower_char b else a = b)"

text \<open>One character is consumed.\<close>

definition advance :: "mstate \<Rightarrow> mstate list" where
  "advance st =
     (case st of (i, p, cs, g) \<Rightarrow>
        (case cs of [] \<Rightarrow> [] | c # cs' \<Rightarrow> [(Suc i, Some c, cs', g)]))"

definition next_is :: "(uchar \<Rightarrow> bool) \<Rightarrow> mstate \<Rightarrow> bool" where
  "next_is P st = (case rest st of [] \<Rightarrow> False | c # cs \<Rightarrow> P c)"

definition prev_is :: "(uchar \<Rightarrow> bool) \<Rightarrow> mstate \<Rightarrow> bool" where
  "prev_is P st = (case fst (snd st) of None \<Rightarrow> False | Some c \<Rightarrow> P c)"

text \<open>\<open>\\b\<close>: exactly one side of the position is a word character.\<close>

definition boundary :: "mstate \<Rightarrow> bool" where
  "boundary st \<longleftrightarrow> prev_is is_word st \<noteq> next_is is_word st"

definition capture :: "nat \<Rightarrow> mstate \<Rightarrow> mstate \<Rightarrow> mstate" where
  "capture n st st' =
     (case st' of (i, p, cs, g) \<Rightarrow> (i, p, cs, g(n \<mapsto> take (i - pos st) (rest st))))"

function ends :: "bool \<Rightarrow> rx \<Rightarrow> mstate \<Rightarrow> mstate list" where
  "ends ic Empty st = [st]"
| "ends ic (Chr c) st = (if next_is (\<lambda>x. chr_eq ic x c) st then advance st else [])"
| "ends ic (Cls P) st = (if next_is P st then advance st else [])"
| "ends ic (Seq a b) st = concat (map (ends ic b) (ends ic a st))"
| "ends ic (Alt a b) st = ends ic a st @ ends ic b st"
| "ends ic (Opt a) st = ends ic a st @ [st]"
| "ends ic (Star a) st =
     concat (map (\<lambda>st'. if length (rest st') < length (rest st)
                         then ends ic (Star a) st' else [])
                 (ends ic a st)) @ [st]"
| "ends ic (Grp n a) st = map (capture n st) (ends ic a st)"
| "ends ic WordB st = (if boundary st then [st] else [])"
| "ends ic Bol st = (if pos st = 0 then [st] else [])"
  by pat_completeness auto
termination
  by (relation "measures [\<lambda>(ic, r, st). size r, \<lambda>(ic, r, st). length (rest st)]") auto

text \<open>Pattern combinators: literals, sequences, alternatives, bounded repetition.\<close>

definition ch :: "char \<Rightarrow> rx" where
  "ch c = Chr (of_char c)"

definition seqs :: "rx list \<Rightarrow> rx" where
  "seqs rs = foldr Seq rs Empty"

definition lit :: "ustr \<Rightarrow> rx" where
  "lit s = seqs (map Chr s)"

fun alts :: "rx list \<Rightarrow> rx" where
  "alts [] = Cls (\<lambda>c. False)"
| "alts [r] = r"
| "alts (r # rs) = Alt r (alts rs)"

definition plus :: "rx \<Rightarrow> rx" where
  "plus r = Seq r (Star r)"

primrec times :: "nat \<Rightarrow> rx \<Rightarrow> rx" where
  "times 0 r = Empty"
| "times (Suc n) r = Seq r (times n r)"

primrec upto :: "nat \<Rightarrow> rx \<Rightarrow> rx" where
  "upto 0 r = Empty"
| "upto (Suc n) r = Opt (Seq r (upto n r))"

text \<open>\<open>r{m,n}\<close>, greedy.\<close>

definition rep :: "nat \<Rightarrow> nat \<Rightarrow> rx \<Rightarrow> rx" where
  "rep m n r = Seq (times m r) (upto (n - m) r)"

definition digit :: rx where
  "digit = Cls is_digit"

definition space :: rx where
  "space = Cls is_space"

definition one_of :: "ustr \<Rightarrow> rx" where
  "one_of cs = Cls (\<lambda>c. c \<in> set cs)"

definition no_caps :: caps where
  "no_caps = (\<lambda>n. None)"

definition start :: "ustr \<Rightarrow> mstate" where
  "start s = (0, None, s, no_caps)"

text \<open>A match: where it starts, and the state in which it ends.\<close>

type_synonym match = "nat \<times> mstate"

text \<open>\<open>re.match\<close>: a match at the start of the string.\<close>

definition re_match :: "bool \<Rightarrow> rx \<Rightarrow> ustr \<Rightarrow> match option" where
  "re_match ic r s = (case ends ic r (start s) of [] \<Rightarrow> None | st # _ \<Rightarrow> Some (0, st))"

text \<open>\<open>re.search\<close>: the match at the leftmost position that has one.\<close>

fun search_from :: "bool \<Rightarrow> rx \<Rightarrow> nat \<Rightarrow> uchar option \<Rightarrow> ustr \<Rightarrow> match option" where
  "search_from ic r i p [] =
     (case ends ic r (i, p, [], no_caps) of [] \<Rightarrow> None | st # _ \<Rightarrow> Some (i, st))"
| "search_from ic r i p (c # cs) =
     (case ends ic r (i, p, c # cs, no_caps) of
        [] \<Rightarrow> search_from ic r (Suc i) (Some c) cs
      | st # _ \<Rightarrow> Some (i, st))"

definition re_search :: "bool \<Rightarrow> rx \<Rightarrow> ustr \<Rightarrow> match option" where
  "re_search ic r s = search_from ic r 0 None s"

definition found :: "bool \<Rightarrow> rx \<Rightarrow> ustr \<Rightarrow> bool" where
  "found ic r s \<longleftrightarrow> re_search ic r s \<noteq> None"

text \<open>\<open>match.group(n)\<close>; a group that took no part in the match gives \<open>None\<close>.\<close>

definition group :: "ustr \<Rightarrow> match \<Rightarrow> nat \<Rightarrow> ustr option" where
  "group s m n =
     (if n = 0 then Some (take (pos (snd m) - fst m) (drop (fst m) s))
      else snd (snd (snd (snd m))) n)"

text \<open>
  \<open>re.findall\<close> for a pattern with one group: the group of every match, left to right,
  the empty string for a group that took no part. The search goes on where the match
  ended.
\<close>

function findall_from :: "bool \<Rightarrow> rx \<Rightarrow> nat \<Rightarrow> uchar option \<Rightarrow> ustr \<Rightarrow> ustr list" where
  "findall_from ic r i p [] =
     (case ends ic r (i, p, [], no_caps) of
        [] \<Rightarrow> []
      | st # _ \<Rightarrow> [case snd (snd (snd st)) 1 of None \<Rightarrow> [] | Some g \<Rightarrow> g])"
| "findall_from ic r i p (c # cs) =
     (case ends ic r (i, p, c # cs, no_caps) of
        [] \<Rightarrow> findall_from ic r (Suc i) (Some c) cs
      | st # _ \<Rightarrow>
          (case snd (snd (snd st)) 1 of None \<Rightarrow> [] | Some g \<Rightarrow> g)
          # (if length (rest st) < length (c # cs)
             then findall_from ic r (pos st) (fst (snd st)) (rest st)
             else findall_from ic r (Suc i) (Some c) cs))"
  by pat_completeness auto
termination
  by (relation "measure (\<lambda>(ic, r, i, p, cs). length cs)") auto

definition re_findall :: "bool \<Rightarrow> rx \<Rightarrow> ustr \<Rightarrow> ustr list" where
  "re_findall ic r s = findall_from ic r 0 None s"

text \<open>\<open>re.sub(r, '', s)\<close>: every match is deleted.\<close>

function delete_from :: "bool \<Rightarrow> rx \<Rightarrow> nat \<Rightarrow> uchar option \<Rightarrow> ustr \<Rightarrow> ustr" where
  "delete_from ic r i p [] = []"
| "delete_from ic r i p (c # cs) =
     (case ends ic r (i, p, c # cs, no_caps) of
        [] \<Rightarrow> c # delete_from ic r (Suc i) (Some c) cs
      | st # _ \<Rightarrow>
          (if length (rest st) < length (c # cs)
           then delete_from ic r (pos st) (fst (snd st)) (rest st)
           else c # delete_from ic r (Suc i) (Some c) cs))"
  by pat_completeness auto
termination
  by (relation "measure (\<lambda>(ic, r, i, p, cs). length cs)") auto

definition re_delete :: "bool \<Rightarrow> rx \<Rightarrow> ustr \<Rightarrow> ustr" where
  "re_delete ic r s = delete_from ic r 0 None s"

text \<open>
  The words a pattern stands for, apart from what surrounds them: a match consumes one
  of them.
\<close>

inductive matches :: "bool \<Rightarrow> rx \<Rightarrow> ustr \<Rightarrow> bool" where
  m_Empty: "matches ic Empty []"
| m_Chr: "chr_eq ic x c \<Longrightarrow> matches ic (Chr c) [x]"
| m_Cls: "P x \<Longrightarrow> matches ic (Cls P) [x]"
| m_Seq: "matches ic a v \<Longrightarrow> matches ic b w \<Longrightarrow> matches ic (Seq a b) (v @ w)"
| m_AltL: "matches ic a w \<Longrightarrow> matches ic (Alt a b) w"
| m_AltR: "matches ic b w \<Longrightarrow> matches ic (Alt a b) w"
| m_OptN: "matches ic (Opt a) []"
| m_OptS: "matches ic a w \<Longrightarrow> matches ic (Opt a) w"
| m_StarN: "matches ic (Star a) []"
| m_StarS: "matches ic a v \<Longrightarrow> matches ic (Star a) w \<Longrightarrow> matches ic (Star a) (v @ w)"
| m_Grp: "matches ic a w \<Longrightarrow> matches ic (Grp n a) w"
| m_WordB: "matches ic WordB []"
| m_Bol: "matches ic Bol []"

definition consumed :: "bool \<Rightarrow> rx \<Rightarrow> mstate \<Rightarrow> mstate \<Rightarrow> bool" where
  "consumed ic r st st' \<longleftrightarrow>
     (\<exists>w. rest st = w @ rest st' \<and> pos st' = pos st + length w \<and> matches ic r w)"

section \<open>Experience level and years of experience\<close>

text \<open>\<open>int\<close> of a string of decimal digits.\<close>

definition digits_value :: "ustr \<Rightarrow> int" where
  "digits_value s = foldl (\<lambda>a c. 10 * a + (c - 48)) 0 s"

text \<open>A phrase between word boundaries: \<open>\\bphrase\\b\<close>.\<close>

definition whole :: "ustr \<Rightarrow> rx" where
  "whole p = seqs [WordB, lit p, WordB]"

definition years_range_rx :: rx where
  "years_range_rx =
     seqs [Grp 1 (plus digit), Opt (ch CHR ''+''), Star space,
           alts [lit (u ''to''), ch CHR ''-'', Chr 8211],
           Star space, Opt (Grp 2 (plus digit)), Star space, lit (u ''year''), Opt (ch CHR ''s'')]"

definition years_plain_rx :: rx where
  "years_plain_rx =
     seqs [Grp 1 (plus digit), Opt (ch CHR ''+''), Star space, lit (u ''year''), Opt (ch CHR ''s'')]"

text \<open>
  The patterns are tried in turn; the first that matches anywhere in the text decides.
  Group 1 is a run of digits, so \<open>int\<close> cannot fail on it.
\<close>

fun first_group_value :: "rx list \<Rightarrow> ustr \<Rightarrow> int option" where
  "first_group_value [] text = None"
| "first_group_value (p # ps) text =
     (case re_search True p text of
        None \<Rightarrow> first_group_value ps text
      | Some m \<Rightarrow> map_option digits_value (group text m 1))"

definition extract_years_experience :: "ustr \<Rightarrow> int option" where
  "extract_years_experience text = first_group_value [years_range_rx, years_plain_rx] text"

definition lead_rx :: rx where
  "lead_rx = alts [whole (u ''lead''), whole (u ''principal''), whole (u ''staff'')]"

definition senior_rx :: rx where
  "senior_rx = alts [whole (u ''senior''), seqs [WordB, lit (u ''sr''), Opt (ch CHR ''.''), WordB]]"

definition entry_rx :: rx where
  "entry_rx = alts [whole (u ''entry''), whole (u ''junior''), whole (u ''associate'')]"

definition extract_experience_level :: "ustr \<Rightarrow> ustr" where
  "extract_experience_level text =
     (let text_lower = lower text in
      if found False lead_rx text_lower then u ''Lead/Principal''
      else if found False senior_rx text_lower then u ''Senior''
      else if found False entry_rx text_lower then u ''Entry-Level''
      else (case extract_years_experience text of
              None \<Rightarrow> u ''Mid-Level''
            | Some years \<Rightarrow>
                if years \<noteq> 0 then
                  (if years \<ge> 10 then u ''Lead/Principal''
                   else if years \<ge> 6 then u ''Senior''
                   else if years \<ge> 3 then u ''Mid-Level''
                   else u ''Entry-Level'')
                else u ''Mid-Level''))"

section \<open>Skills\<close>

definition skill_patterns :: "(string \<times> ustr list) list" where
  "skill_patterns =
   [(''product_management'', map u
      [''product strategy'', ''product vision'', ''roadmap'', ''roadmapping'',
       ''product lifecycle'', ''product development'', ''product planning'',
       ''feature prioritization'', ''backlog management'', ''user stories'',
       ''product metrics'', ''product analytics'', ''kpis'']),
    (''technical'', map u
      [''sql'', ''python'', ''api'', ''rest'', ''graphql'', ''json'', ''xml'',
       ''cloud'', ''aws'', ''azure'', ''gcp'', ''kubernetes'', ''docker'',
       ''microservices'', ''system design'', ''architecture'', ''technical specifications'',
       ''data structures'', ''algorithms'', ''database'', ''nosql'']),
    (''analytics'', map u
      [''data analysis'', ''analytics'', ''a/b testing'', ''experimentation'',
       ''metrics'', ''kpi'', ''tableau'', ''google analytics'', ''mixpanel'',
       ''amplitude'', ''sql'', ''excel'', ''statistics'', ''data-driven'',
       ''quantitative analysis'', ''cohort analysis'', ''funnel analysis'']),
    (''design'', map u
      [''ux'', ''ui'', ''user experience'', ''user interface'', ''wireframing'',
       ''prototyping'', ''figma'', ''sketch'', ''adobe xd'', ''invision'',
       ''user research'', ''usability testing'', ''design thinking'']),
    (''business'', map u
      [''business strategy'', ''market analysis'', ''competitive analysis'',
       ''go-to-market'', ''gtm'', ''pricing'', ''monetization'', ''revenue'',
       ''p&l'', ''roi'', ''business case'', ''financial modeling'',
       ''market research'', ''customer segmentation'']),
    (''agile'', map u
      [''agile'', ''scrum'', ''kanban'', ''sprint'', ''jira'', ''confluence'',
       ''standup'', ''retrospective'', ''sprint planning'', ''agile methodologies'']),
    (''leadership'', map u
      [''stakeholder management'', ''cross-functional'', ''leadership'',
       ''team management'', ''mentoring'', ''coaching'', ''influence'',
       ''communication'', ''presentation'', ''executive communication'']),
    (''domain'', map u
      [''saas'', ''b2b'', ''b2c'', ''enterprise'', ''consumer'', ''mobile'',
       ''web'', ''platform'', ''marketplace'', ''e-commerce'', ''fintech'',
       ''healthtech'', ''edtech'', ''marketplace''])]"

text \<open>
  A Python \<open>set\<close> of strings. While it is built it is kept as the list of its members
  in the order in which they were added. \<open>list(skills)\<close> lists the members in the order
  of the slots of the hash table, which follows the hashes of the strings: these change
  from one run of the interpreter to the next, so the order is not fixed by the members
  or by the order in which they were added. The model takes it as a parameter:
  \<open>slot xs x\<close> is the place that a run gives to the member \<open>x\<close> in the table of the set
  built by adding \<open>xs\<close>, and \<open>list_of\<close> lists the members by ascending place, members
  of equal place as they were added. Every order of the members is that of some \<open>slot\<close>.
\<close>

type_synonym slots = "ustr list \<Rightarrow> ustr \<Rightarrow> int"

definition set_add :: "'a \<Rightarrow> 'a list \<Rightarrow> 'a list" where
  "set_add x xs = (if x \<in> set xs then xs else xs @ [x])"

definition list_of :: "slots \<Rightarrow> ustr list \<Rightarrow> ustr list" where
  "list_of slot xs = sort_key (slot xs) xs"

text \<open>
  \<open>re.escape\<close> makes every character of the phrase stand for itself, so the pattern
  is the phrase between two \<open>\\b\<close>, searched without regard to case.
\<close>

definition skill_found :: "ustr \<Rightarrow> ustr \<Rightarrow> bool" where
  "skill_found skill text \<longleftrightarrow> found True (whole skill) text"

definition found_skills :: "ustr \<Rightarrow> ustr list" where
  "found_skills text =
     fold (\<lambda>(category, skill_list) skills.
             fold (\<lambda>skill skills. if skill_found skill text then set_add skill skills else skills)
                  skill_list skills)
          skill_patterns []"

definition extract_skills_rules :: "slots \<Rightarrow> ustr \<Rightarrow> ustr list" where
  "extract_skills_rules slot text = list_of slot (found_skills text)"

text \<open>
  The enhanced path. The backend is a parameter: a function from the text to the
  taxonomy phrases that its noun chunks and entities select. The phrases found by the
  rules are always added.
\<close>

definition extract_skills_nlp ::
  "slots \<Rightarrow> (ustr \<Rightarrow> ustr list) option \<Rightarrow> ustr \<Rightarrow> ustr list" where
  "extract_skills_nlp slot nlp text =
     (case nlp of
        None \<Rightarrow> extract_skills_rules slot (lower text)
      | Some backend \<Rightarrow>
          list_of slot (fold set_add (backend text @ extract_skills_rules slot (lower text)) []))"

text \<open>
  What the claim about whole phrases says, stated on the text itself: the phrase occurs,
  up to case, with a word boundary on each side. \<open>word_edge l r\<close> is the \<open>\\b\<close> between
  the text \<open>l\<close> before a position and the text \<open>r\<close> after it.
\<close>

definition prev_of :: "ustr \<Rightarrow> uchar option" where
  "prev_of pre = (if pre = [] then None else Some (last pre))"

definition word_edge :: "ustr \<Rightarrow> ustr \<Rightarrow> bool" where
  "word_edge l r \<longleftrightarrow> (l \<noteq> [] \<and> is_word (last l)) \<noteq> (r \<noteq> [] \<and> is_word (hd r))"

definition occurs_whole :: "ustr \<Rightarrow> ustr \<Rightarrow> bool" where
  "occurs_whole p text \<longleftrightarrow>
     (\<exists>pre w post. text = pre @ w @ post \<and> lower w = lower p \<and>
        word_edge pre (w @ post) \<and> word_edge (pre @ w) post)"

text \<open>The categories that list a phrase, in the order of the taxonomy.\<close>

definition categories_of :: "ustr \<Rightarrow> string list" where
  "categories_of phrase =
     map fst (filter (\<lambda>(category, skill_list). phrase \<in> set skill_list) skill_patterns)"

definition all_phrases :: "ustr list" where
  "all_phrases = concat (map snd skill_patterns)"

definition append_to :: "string \<Rightarrow> ustr \<Rightarrow> (string \<times> ustr list) list \<Rightarrow> (string \<times> ustr list) list" where
  "append_to category skill categorized =
     map (\<lambda>(k, v). if k = category then (k, v @ [skill]) else (k, v)) categorized"

text \<open>The inner loop with its \<open>break\<close>: the first category that lists the skill.\<close>

definition first_category :: "ustr \<Rightarrow> string option" where
  "first_category skill =
     map_option fst (List.find (\<lambda>(category, skill_list). skill \<in> set skill_list) skill_patterns)"

definition categorize_skills :: "ustr list \<Rightarrow> (string \<times> ustr list) list" where
  "categorize_skills skills =
     filter (\<lambda>(k, v). v \<noteq> [])
       (fold (\<lambda>skill categorized.
                case first_category skill of
                  None \<Rightarrow> categorized
                | Some category \<Rightarrow> append_to category skill categorized)
             skills
             (map (\<lambda>(category, skill_list). (category, [])) skill_patterns))"

section \<open>Sections of bullet points\<close>

definition bullet_chars :: ustr where
  "bullet_chars = [45, 8226, 42]"

text \<open>\<open>^[-\<bullet>*\\d.]\<close>, \<open>^[-\<bullet>*]\\s+\<close>, \<open>^\\d+\\.\\s+\<close> and \<open>^[-\<bullet>*\\d.]+\\s+\<close>.\<close>

definition marker_char :: "uchar \<Rightarrow> bool" where
  "marker_char c \<longleftrightarrow> c \<in> set bullet_chars \<or> is_digit c \<or> c = 46"

definition marker_start_rx :: rx where
  "marker_start_rx = seqs [Bol, Cls marker_char]"

definition bullet_rx :: rx where
  "bullet_rx = seqs [Bol, one_of bullet_chars, plus space]"

definition numbered_rx :: rx where
  "numbered_rx = seqs [Bol, plus digit, ch CHR ''.'', plus space]"

definition marker_rx :: rx where
  "marker_rx = seqs [Bol, plus (Cls marker_char), plus space]"

definition marker_start :: "ustr \<Rightarrow> bool" where
  "marker_start line \<longleftrightarrow> re_match False marker_start_rx line \<noteq> None"

definition bulleted :: "ustr \<Rightarrow> bool" where
  "bulleted line \<longleftrightarrow> re_match False bullet_rx line \<noteq> None"

definition numbered :: "ustr \<Rightarrow> bool" where
  "numbered line \<longleftrightarrow> re_match False numbered_rx line \<noteq> None"

definition clean :: "ustr \<Rightarrow> ustr" where
  "clean line = re_delete False marker_rx line"

definition has_keyword :: "ustr list \<Rightarrow> ustr \<Rightarrow> bool" where
  "has_keyword keywords line \<longleftrightarrow> list_ex (\<lambda>keyword. contains (lower line) keyword) keywords"

text \<open>
  The loop of \<open>_extract_sections\<close> over the lines that are left, \<open>in_section\<close> being
  the flag on entry. The line after the current one is the head of the remaining lines;
  the last line has none.
\<close>

fun sections_loop :: "ustr list \<Rightarrow> bool \<Rightarrow> ustr list \<Rightarrow> ustr list" where
  "sections_loop keywords in_section [] = []"
| "sections_loop keywords in_section (raw # lines) =
     (let line = strip raw in
      if has_keyword keywords line then sections_loop keywords True lines
      else
        let in_section' =
              (if in_section \<and> line \<noteq> [] \<and> \<not> marker_start line
                  \<and> (case lines of [] \<Rightarrow> False | nxt # _ \<Rightarrow> \<not> marker_start (strip nxt))
               then False else in_section)
        in (if (in_section' \<and> bulleted line) \<or> numbered line then
              (let clean_line = clean line
               in if length clean_line > 20 then [take 200 clean_line] else [])
            else [])
           @ sections_loop keywords in_section' lines)"

definition extract_sections :: "ustr \<Rightarrow> ustr list \<Rightarrow> ustr list" where
  "extract_sections text keywords = take 20 (sections_loop keywords False (split_on newline text))"

definition nice_keywords :: "ustr list" where
  "nice_keywords = map u [''nice to have'', ''preferred'', ''bonus'', ''plus'', ''ideal candidate'']"

fun nice_loop :: "bool \<Rightarrow> ustr list \<Rightarrow> ustr list" where
  "nice_loop in_nice_section [] = []"
| "nice_loop in_nice_section (line # lines) =
     (if has_keyword nice_keywords line then nice_loop True lines
      else
        (if in_nice_section \<and> bulleted line then
           (let clean_line = clean (strip line)
            in if length clean_line > 10 then [take 200 clean_line] else [])
         else [])
        @ nice_loop in_nice_section lines)"

definition extract_nice_to_have :: "ustr \<Rightarrow> ustr list" where
  "extract_nice_to_have text = take 10 (nice_loop False (split_on newline text))"

text \<open>
  What the claim about the capture window says, stated on the lines by their index.
  Line \<open>k\<close> closes the window when it is not a heading, is not empty and does not
  start with a marker, and the line after it does not start with a marker either. The
  window is open at line \<open>i\<close> when a heading came before and no line since, up to
  \<open>i\<close> itself, has closed it. \<open>flag_before\<close> is the flag with which the loop reaches
  line \<open>i\<close>.
\<close>

definition closes :: "ustr list \<Rightarrow> ustr list \<Rightarrow> nat \<Rightarrow> bool" where
  "closes keywords ls k \<longleftrightarrow>
     \<not> has_keyword keywords (strip (ls ! k)) \<and> Suc k < length ls \<and>
     strip (ls ! k) \<noteq> [] \<and> \<not> marker_start (strip (ls ! k)) \<and>
     \<not> marker_start (strip (ls ! Suc k))"

definition window_open :: "ustr list \<Rightarrow> ustr list \<Rightarrow> nat \<Rightarrow> bool" where
  "window_open keywords ls i \<longleftrightarrow>
     (\<exists>j<i. has_keyword keywords (strip (ls ! j)) \<and>
            (\<forall>k. j < k \<and> k \<le> i \<longrightarrow> \<not> closes keywords ls k))"

definition captured_in_window :: "ustr list \<Rightarrow> ustr list \<Rightarrow> ustr list" where
  "captured_in_window keywords ls =
     concat (map (\<lambda>i. if \<not> has_keyword keywords (strip (ls ! i)) \<and> window_open keywords ls i \<and>
                          bulleted (strip (ls ! i)) \<and> 20 < length (clean (strip (ls ! i)))
                       then [take 200 (clean (strip (ls ! i)))] else [])
                 [0..<length ls])"

definition captured_after_keyword :: "ustr list \<Rightarrow> ustr list" where
  "captured_after_keyword ls =
     concat (map (\<lambda>i. if \<not> has_keyword nice_keywords (ls ! i) \<and>
                          (\<exists>j<i. has_keyword nice_keywords (ls ! j)) \<and>
                          bulleted (ls ! i) \<and> 10 < length (clean (strip (ls ! i)))
                       then [take 200 (clean (strip (ls ! i)))] else [])
                 [0..<length ls])"

definition flag_before :: "ustr list \<Rightarrow> ustr list \<Rightarrow> nat \<Rightarrow> bool" where
  "flag_before keywords ls i \<longleftrightarrow>
     (\<exists>j<i. has_keyword keywords (strip (ls ! j)) \<and>
            (\<forall>k. j < k \<and> k < i \<longrightarrow> \<not> closes keywords ls k))"

section \<open>Values and errors\<close>

text \<open>
  An exception is a value of \<open>error\<close>; a function that can raise returns \<open>error + 'a\<close>.
  The values a \<open>Dict[str, Any]\<close> of the analyzer holds are of \<open>pyval\<close>; a dictionary is
  the list of its items in insertion order, each key once. A float is the rational it
  would be without rounding.
\<close>

datatype error =
    ValidationError
  | InsufficientDataError
  | AnalysisError
  | ValueError
  | TypeError
  | ZeroDivisionError

datatype pyval =
    VNone
  | VInt int
  | VFloat rat
  | VStr ustr
  | VList "ustr list"
  | VCounter "(ustr \<times> nat) list"
  | VDict "(string \<times> pyval) list"

type_synonym pydict = "(string \<times> pyval) list"

definition get :: "pydict \<Rightarrow> string \<Rightarrow> pyval option" where
  "get d k = map_of d k"

text \<open>Truth value of \<open>d.get(k)\<close>, which is \<open>None\<close> for a missing key.\<close>

fun truthy :: "pyval option \<Rightarrow> bool" where
  "truthy None = False"
| "truthy (Some VNone) = False"
| "truthy (Some (VInt n)) = (n \<noteq> 0)"
| "truthy (Some (VFloat x)) = (x \<noteq> 0)"
| "truthy (Some (VStr s)) = (s \<noteq> [])"
| "truthy (Some (VList xs)) = (xs \<noteq> [])"
| "truthy (Some (VCounter c)) = (c \<noteq> [])"
| "truthy (Some (VDict d)) = (d \<noteq> [])"

section \<open>Salary\<close>

text \<open>\<open>\\d{1,3}(?:,\\d{3})*(?:k|K)?\<close>, the amount of both salary patterns.\<close>

definition amount_rx :: rx where
  "amount_rx =
     seqs [rep 1 3 digit, Star (seqs [ch CHR '','', times 3 digit]),
           Opt (alts [ch CHR ''k'', ch CHR ''K''])]"

definition salary_pattern :: rx where
  "salary_pattern =
     seqs [ch CHR ''$'', Grp 1 amount_rx, Star space,
           alts [lit (u ''to''), ch CHR ''-'', Chr 8211],
           Star space, Opt (ch CHR ''$''), Grp 2 amount_rx]"

definition amounts_rx :: rx where
  "amounts_rx = seqs [Opt (ch CHR ''$''), Grp 1 amount_rx]"

text \<open>
  The form of an amount: digits and commas after a first digit, then at most one
  \<open>k\<close> or \<open>K\<close>.
\<close>

definition amount_like :: "ustr \<Rightarrow> bool" where
  "amount_like w \<longleftrightarrow>
     (\<exists>body suf. w = body @ suf \<and> body \<noteq> [] \<and> is_digit (hd body) \<and>
        list_all (\<lambda>c. is_digit c \<or> c = 44) body \<and> (suf = [] \<or> suf = [107] \<or> suf = [75]))"

text \<open>
  \<open>int\<close> of a string. Only strings of decimal digits reach it; a sign, underscores or
  blanks around the digits, which Python would also accept, are not modelled, nor is the
  limit that newer interpreters put on the number of digits.
\<close>

definition py_int :: "ustr \<Rightarrow> error + int" where
  "py_int s = (if s \<noteq> [] \<and> list_all is_digit s then Inr (digits_value s) else Inl ValueError)"

definition parse_salary :: "ustr \<Rightarrow> error + int" where
  "parse_salary salary_str =
     (let salary_str = remove_char 36 (remove_char 44 salary_str) in
      if endswith salary_str (u ''k'') \<or> endswith salary_str (u ''K'')
      then (case py_int (butlast salary_str) of
              Inl e \<Rightarrow> Inl e
            | Inr n \<Rightarrow> Inr (n * 1000))
      else py_int salary_str)"

text \<open>The group of a match as an f-string prints it: \<open>None\<close> for a group without text.\<close>

definition fmt_group :: "ustr \<Rightarrow> match \<Rightarrow> nat \<Rightarrow> ustr" where
  "fmt_group s m n = (case group s m n of None \<Rightarrow> u ''None'' | Some g \<Rightarrow> g)"

text \<open>The string to parse: the field if it is given and not empty, else a range in the text.\<close>

definition salary_string :: "ustr option \<Rightarrow> ustr \<Rightarrow> ustr option" where
  "salary_string salary_range text =
     (if salary_range = None \<or> salary_range = Some []
      then (case re_search False salary_pattern text of
              None \<Rightarrow> salary_range
            | Some m \<Rightarrow> Some (u ''$'' @ fmt_group text m 1 @ u '' - $'' @ fmt_group text m 2))
      else salary_range)"

definition extract_salary_info :: "ustr option \<Rightarrow> ustr \<Rightarrow> pydict" where
  "extract_salary_info salary_range text =
     (case salary_string salary_range text of
        None \<Rightarrow> []
      | Some sr \<Rightarrow>
          if sr = [] then []
          else
            (let amounts = re_findall False amounts_rx sr in
             case amounts of
               a0 # a1 # _ \<Rightarrow>
                 (case (parse_salary a0, parse_salary a1) of
                    (Inr min_sal, Inr max_sal) \<Rightarrow>
                      [(''min'', VInt min_sal), (''max'', VInt max_sal),
                       (''average'', VInt ((min_sal + max_sal) div 2)), (''range'', VStr sr)]
                  | _ \<Rightarrow> [(''range'', VStr sr)])
             | _ \<Rightarrow> [(''range'', VStr sr)]))"

section \<open>Remote policy, company, education\<close>

definition extract_remote_policy :: "ustr \<Rightarrow> ustr" where
  "extract_remote_policy text =
     (if found False (alts [lit (u ''fully remote''),
                            seqs [lit (u ''100%''), Star space, lit (u ''remote'')],
                            seqs [lit (u ''remote''), one_of (u ''- ''), lit (u ''first'')]]) text
      then u ''Fully Remote''
      else if found False (lit (u ''hybrid'')) text then u ''Hybrid''
      else if found False (alts [seqs [lit (u ''on''), Opt (one_of (u ''- '')), lit (u ''site'')],
                                 seqs [lit (u ''in''), one_of (u ''- ''), lit (u ''office'')]]) text
      then u ''On-Site''
      else if found False (lit (u ''remote'')) text then u ''Remote Available''
      else u ''Not Specified'')"

definition upper_char :: "uchar \<Rightarrow> uchar" where
  "upper_char c = (if 97 \<le> c \<and> c \<le> 122 then c - 32 else c)"

definition series_rx :: rx where
  "series_rx = seqs [lit (u ''series ''), Grp 1 (Cls (\<lambda>c. 97 \<le> c \<and> c \<le> 100))]"

definition size_rx :: rx where
  "size_rx =
     seqs [Grp 1 (plus digit), Opt (ch CHR ''+''), Star space,
           alts [lit (u ''person''), lit (u ''people''), lit (u ''employee'')]]"

definition company_stage :: "ustr \<Rightarrow> pydict" where
  "company_stage text =
     (if found False (alts [lit (u ''startup''),
                            seqs [lit (u ''early''), one_of (u ''- ''), lit (u ''stage'')]]) text
      then [(''stage'', VStr (u ''Startup''))]
      else (case re_search False series_rx text of
              Some m \<Rightarrow> [(''stage'', VStr (u ''Series '' @ map upper_char (fmt_group text m 1)))]
            | None \<Rightarrow>
                if found False (alts [lit (u ''enterprise''), lit (u ''fortune'')]) text
                then [(''stage'', VStr (u ''Enterprise''))]
                else []))"

definition extract_company_info :: "ustr \<Rightarrow> pydict" where
  "extract_company_info text =
     company_stage text @
     (case re_search False size_rx text of
        None \<Rightarrow> []
      | Some size_match \<Rightarrow> [(''size'', VStr (fmt_group text size_match 1 @ u ''+ employees''))])"

definition education_keywords :: "rx list" where
  "education_keywords =
     [seqs [lit (u ''bachelor''), Opt (Chr 39), Opt (ch CHR ''s''), plus space, lit (u ''degree'')],
      seqs [lit (u ''master''), Opt (Chr 39), Opt (ch CHR ''s''), plus space, lit (u ''degree'')],
      lit (u ''mba''),
      seqs [lit (u ''ph''), Opt (ch CHR ''.''), ch CHR ''d'', Opt (ch CHR ''.'')],
      lit (u ''computer science degree''),
      lit (u ''technical degree''),
      lit (u ''engineering degree'')]"

definition extract_education :: "ustr \<Rightarrow> ustr list" where
  "extract_education text =
     (let text_lower = lower text in
      concat (map (\<lambda>keyword. case re_search False keyword text_lower of
                                None \<Rightarrow> []
                              | Some m \<Rightarrow> [fmt_group text_lower m 0])
                  education_keywords))"

section \<open>The JobDescription model\<close>

record job_description =
  title :: ustr
  company :: ustr
  location :: "ustr option"
  salary_range :: "ustr option"
  description :: ustr

definition validate_description :: "ustr \<Rightarrow> error + ustr" where
  "validate_description v = (if length (split_ws v) < 50 then Inl ValueError else Inr v)"

text \<open>
  Construction: the length bounds of the fields, then the validator of the description.
  Any failure is reported as a validation error.
\<close>

definition JobDescription ::
  "ustr \<Rightarrow> ustr \<Rightarrow> ustr option \<Rightarrow> ustr option \<Rightarrow> ustr \<Rightarrow> error + job_description" where
  "JobDescription t c l s d =
     (if length t < 1 \<or> 200 < length t then Inl ValidationError
      else if length c < 1 \<or> 200 < length c then Inl ValidationError
      else if length d < 10 then Inl ValidationError
      else (case validate_description d of
              Inl e \<Rightarrow> Inl ValidationError
            | Inr v \<Rightarrow> Inr \<lparr>title = t, company = c, location = l, salary_range = s,
                              description = v\<rparr>))"

section \<open>The insight of one job description\<close>

record insight =
  i_title :: ustr
  i_company :: ustr
  skills :: "ustr list"
  skills_by_category :: "(string \<times> ustr list) list"
  responsibilities :: "ustr list"
  qualifications :: "ustr list"
  experience_level :: ustr
  experience_years :: "int option"
  i_salary_range :: pydict
  i_location :: ustr
  remote_policy :: ustr
  company_info :: pydict
  required_education :: "ustr list"
  nice_to_have :: "ustr list"

text \<open>
  \<open>nlp\<close> is the enhanced backend, \<open>None\<close> when spaCy or its model is missing;
  \<open>slot\<close> is the order of the sets of the run. The number threaded through counts
  the job descriptions analysed so far.
\<close>

definition analyze_job_description ::
  "slots \<Rightarrow> (ustr \<Rightarrow> ustr list) option \<Rightarrow> job_description \<Rightarrow> nat \<Rightarrow> insight \<times> nat" where
  "analyze_job_description slot nlp job_desc work =
     (let text = description job_desc;
          text_lower = lower text;
          skills = (if nlp \<noteq> None then extract_skills_nlp slot nlp text
                    else extract_skills_rules slot text_lower)
      in (\<lparr>i_title = title job_desc,
           i_company = company job_desc,
           skills = skills,
           skills_by_category = categorize_skills skills,
           responsibilities =
             extract_sections text (map u [''responsibilities'', ''duties'', ''what you'']),
           qualifications =
             extract_sections text (map u [''qualifications'', ''requirements'', ''you have'']),
           experience_level = extract_experience_level text,
           experience_years = extract_years_experience text,
           i_salary_range = extract_salary_info (salary_range job_desc) text,
           i_location = (case location job_desc of
                           None \<Rightarrow> u ''Not specified''
                         | Some l \<Rightarrow> if l = [] then u ''Not specified'' else l),
           remote_policy = extract_remote_policy text_lower,
           company_info = extract_company_info text_lower,
           required_education = extract_education text,
           nice_to_have = extract_nice_to_have text\<rparr>,
          Suc work))"

section \<open>Aggregation over a batch\<close>

text \<open>
  A \<open>Counter\<close>: the keys in the order in which they were first counted. \<open>most_common n\<close>
  lists the \<open>n\<close> largest counts, largest first, equal counts in the order of the counter.
\<close>

fun count_one :: "'a \<Rightarrow> ('a \<times> nat) list \<Rightarrow> ('a \<times> nat) list" where
  "count_one x [] = [(x, 1)]"
| "count_one x ((k, c) # kcs) = (if k = x then (k, Suc c) # kcs else (k, c) # count_one x kcs)"

definition Counter :: "'a list \<Rightarrow> ('a \<times> nat) list" where
  "Counter xs = fold count_one xs []"

definition most_common :: "nat \<Rightarrow> ('a \<times> nat) list \<Rightarrow> ('a \<times> nat) list" where
  "most_common n c = take n (sort_key (\<lambda>kc. - int (snd kc)) c)"

record analysis_result =
  total_analyzed :: nat
  common_skills :: "(ustr \<times> nat) list"
  common_responsibilities :: "(ustr \<times> nat) list"
  common_qualifications :: "(ustr \<times> nat) list"
  insights :: "insight list"
  salary_insights :: "pydict option"
  market_comparison :: "pydict option"

text \<open>\<open>[s[k] for s in salary_ranges if k in s]\<close>.\<close>

definition field_values :: "string \<Rightarrow> pydict list \<Rightarrow> pyval list" where
  "field_values k ds = List.map_filter (\<lambda>d. get d k) ds"

text \<open>The integers of a list of values; \<open>min\<close>, \<open>max\<close> and \<open>sum\<close> need them all to be so.\<close>

fun ints :: "pyval list \<Rightarrow> error + int list" where
  "ints [] = Inr []"
| "ints (VInt n # vs) = (case ints vs of Inl e \<Rightarrow> Inl e | Inr ns \<Rightarrow> Inr (n # ns))"
| "ints (v # vs) = Inl TypeError"

definition aggregate_salary_data :: "pydict list \<Rightarrow> error + pydict" where
  "aggregate_salary_data salary_ranges =
     (if salary_ranges = [] then Inr []
      else
        (case (ints (field_values ''min'' salary_ranges),
               ints (field_values ''max'' salary_ranges)) of
           (Inr min_salaries, Inr max_salaries) \<Rightarrow>
             if min_salaries = [] then Inr []
             else if max_salaries = [] then Inl ValueError
             else Inr [(''market_min'', VInt (Min (set min_salaries))),
                       (''market_max'', VInt (Max (set max_salaries))),
                       (''average_min'', VInt (sum_list min_salaries div int (length min_salaries))),
                       (''average_max'', VInt (sum_list max_salaries div int (length max_salaries))),
                       (''sample_size'', VInt (int (length salary_ranges)))]
         | _ \<Rightarrow> Inl TypeError))"

definition find_common_patterns :: "insight list \<Rightarrow> error + pydict" where
  "find_common_patterns ins =
     (let all_skills = concat (map skills ins);
          top_skills = [(''top_skills'', VList (map fst (most_common 10 (Counter all_skills))))];
          years = concat (map (\<lambda>i. case experience_years i of
                                      None \<Rightarrow> []
                                    | Some y \<Rightarrow> if y \<noteq> 0 then [y] else []) ins);
          average_years =
            (if years \<noteq> [] then
               [(''average_years_required'',
                 VFloat (Fract (sum_list years) (int (length years))))]
             else []);
          has_degree_req = length (filter (\<lambda>i. required_education i \<noteq> []) ins)
      in if ins = [] then Inl ZeroDivisionError
         else Inr (top_skills @ average_years @
                   [(''education_requirement_frequency'',
                     VFloat (Fract (int has_degree_req) (int (length ins))))]))"

definition generate_market_comparison :: "insight list \<Rightarrow> error + pydict" where
  "generate_market_comparison ins =
     (case find_common_patterns ins of
        Inl e \<Rightarrow> Inl e
      | Inr patterns \<Rightarrow>
          Inr [(''total_roles_analyzed'', VInt (int (length ins))),
               (''experience_levels'', VCounter (Counter (map experience_level ins))),
               (''remote_policies'', VCounter (Counter (map remote_policy ins))),
               (''common_requirements'', VDict patterns)])"

text \<open>The list comprehension over the batch, in order.\<close>

fun analyze_each ::
  "slots \<Rightarrow> (ustr \<Rightarrow> ustr list) option \<Rightarrow> job_description list \<Rightarrow> nat
     \<Rightarrow> insight list \<times> nat" where
  "analyze_each slot nlp [] work = ([], work)"
| "analyze_each slot nlp (desc # descs) work =
     (case analyze_job_description slot nlp desc work of
        (i, work') \<Rightarrow> (case analyze_each slot nlp descs work' of
                         (is, work'') \<Rightarrow> (i # is, work'')))"

text \<open>
  What the \<open>try\<close> block computes from the insights. Whatever is raised inside it is
  raised again as an analysis error.
\<close>

definition aggregate :: "nat \<Rightarrow> insight list \<Rightarrow> error + analysis_result" where
  "aggregate n all_insights =
     (let all_skills = concat (map skills all_insights);
          all_responsibilities = concat (map responsibilities all_insights);
          all_qualifications = concat (map qualifications all_insights);
          salary_ranges =
            filter (\<lambda>d. truthy (get d ''min'')) (map i_salary_range all_insights);
          skill_freq = most_common 50 (Counter all_skills);
          responsibility_freq = most_common 30 (Counter all_responsibilities);
          qualification_freq = most_common 30 (Counter all_qualifications)
      in case (if salary_ranges \<noteq> []
               then (case aggregate_salary_data salary_ranges of
                       Inl e \<Rightarrow> Inl e
                     | Inr s \<Rightarrow> Inr (Some s))
               else Inr None) of
           Inl e \<Rightarrow> Inl AnalysisError
         | Inr sal \<Rightarrow>
             (case generate_market_comparison all_insights of
                Inl e \<Rightarrow> Inl AnalysisError
              | Inr mc \<Rightarrow>
                  Inr \<lparr>total_analyzed = n,
                       common_skills = skill_freq,
                       common_responsibilities = responsibility_freq,
                       common_qualifications = qualification_freq,
                       insights = all_insights,
                       salary_insights = sal,
                       market_comparison = Some mc\<rparr>))"

text \<open>
  \<open>min_required\<close> is the configured \<open>analysis.min_job_descriptions\<close>, 3 when the
  configuration does not set it. The check of the batch size comes before the \<open>try\<close>.
\<close>

definition analyze_multiple_descriptions ::
  "slots \<Rightarrow> (ustr \<Rightarrow> ustr list) option \<Rightarrow> int \<Rightarrow> job_description list \<Rightarrow> nat
     \<Rightarrow> (error + analysis_result) \<times> nat" where
  "analyze_multiple_descriptions slot nlp min_required descriptions work =
     (if int (length descriptions) < min_required then (Inl InsufficientDataError, work)
      else (case analyze_each slot nlp descriptions work of
              (all_insights, work') \<Rightarrow> (aggregate (length descriptions) all_insights, work')))"

section \<open>What the claims about the aggregate say\<close>

text \<open>
  The position at which a key is first met in a list, and the ranking of a frequency
  table: larger counts first, equal counts in the order in which the keys were first
  met. \<open>frequency_table cap xs t\<close> says that \<open>t\<close> is the first \<open>cap\<close> entries of the
  ranking of all keys of \<open>xs\<close>, each with the number of its occurrences in \<open>xs\<close>.
\<close>

definition first_seen :: "'a list \<Rightarrow> 'a \<Rightarrow> nat" where
  "first_seen xs k = length (takeWhile (\<lambda>x. x \<noteq> k) xs)"

definition ranks_before :: "'a list \<Rightarrow> 'a \<times> nat \<Rightarrow> 'a \<times> nat \<Rightarrow> bool" where
  "ranks_before xs a b \<longleftrightarrow>
     snd b < snd a \<or> (snd a = snd b \<and> first_seen xs (fst a) < first_seen xs (fst b))"

definition frequency_table :: "nat \<Rightarrow> 'a list \<Rightarrow> ('a \<times> nat) list \<Rightarrow> bool" where
  "frequency_table cap xs t \<longleftrightarrow>
     (\<exists>full. t = take cap full \<and> distinct (map fst full) \<and>
             set full = (\<lambda>k. (k, count_list xs k)) ` set xs \<and>
             sorted_wrt (ranks_before xs) full)"

text \<open>
  The three forms of the salary of an insight: nothing, the raw range alone, or the
  range with its numbers. The salaries that enter the summary are those whose \<open>min\<close>
  counts as true.
\<close>

definition full_salary :: "int \<Rightarrow> int \<Rightarrow> ustr \<Rightarrow> pydict" where
  "full_salary lo hi sr =
     [(''min'', VInt lo), (''max'', VInt hi), (''average'', VInt ((lo + hi) div 2)),
      (''range'', VStr sr)]"

definition salary_shape :: "pydict \<Rightarrow> bool" where
  "salary_shape d \<longleftrightarrow>
     d = [] \<or> (\<exists>sr. d = [(''range'', VStr sr)]) \<or> (\<exists>lo hi sr. d = full_salary lo hi sr)"

definition parsed_salaries :: "insight list \<Rightarrow> pydict list" where
  "parsed_salaries ins = filter (\<lambda>d. truthy (get d ''min'')) (map i_salary_range ins)"

definition default_min_required :: int where
  "default_min_required = 3"

section \<open>Example postings\<close>

definition posting_sql :: job_description where
  "posting_sql =
     \<lparr>title = u ''Product Analyst'', company = u ''Northwind'',
      location = Some (u ''Berlin''), salary_range = None,
      description = join_lines
        [u (''We are hiring a product analyst to join our growing team in '' @
            ''Berlin. Strong SQL skills are needed because you will write '' @
            ''queries against our warehouse every day.''),
         u ''Responsibilities:'',
         u ''- Define the product roadmap with the team'',
         u ''- Report weekly numbers to the leadership group'',
         [],
         u (''We offer a friendly culture, flexible hours, and a generous '' @
            ''budget for learning and conferences each year.'')]\<rparr>"

definition posting_agile :: job_description where
  "posting_agile =
     \<lparr>title = u ''Delivery Manager'', company = u ''Tailspin'',
      location = None, salary_range = None,
      description = join_lines
        [u (''Our studio is looking for a delivery manager who enjoys '' @
            ''helping teams ship. You will coach three squads in Agile ways '' @
            ''of working.''),
         u ''Responsibilities:'',
         u ''- Run the planning sessions for three squads'',
         u ''- Define the product roadmap with the team'',
         [],
         u (''You bring patience, curiosity, and a habit of writing things '' @
            ''down. We offer a friendly culture and flexible hours.'')]\<rparr>"

definition posting_both :: job_description where
  "posting_both =
     \<lparr>title = u ''Product Owner'', company = u ''Contoso'',
      location = None, salary_range = None,
      description = join_lines
        [u (''Join us as a product owner for our billing tools. You will '' @
            ''write SQL to answer questions about invoices and plan work '' @
            ''with an Agile team of eight.''),
         u ''Responsibilities:'',
         u ''- Run the planning sessions for three squads'',
         u ''- Keep the backlog of the billing tools in order'',
         [],
         u (''The pay for this role is $100k - $120k depending on '' @
            ''experience. We offer a friendly culture and flexible hours.'')]\<rparr>"

definition example_batch :: "job_description list" where
  "example_batch = [posting_sql, posting_agile, posting_both]"

text \<open>
  Two more postings that name both SQL and Agile, and the batch of the three postings
  that do.
\<close>

definition posting_data :: job_description where
  "posting_data =
     \<lparr>title = u ''Data Product Manager'', company = u ''Fabrikam'',
      location = None, salary_range = None,
      description = join_lines
        [u (''Fabrikam is hiring a data product manager for its reporting '' @
            ''suite. You will query our warehouse with SQL and lead an Agile '' @
            ''squad of six engineers through weekly planning.''),
         u ''Responsibilities:'',
         u ''- Own the release plan of the reporting suite'',
         u ''- Review the dashboards with the finance group'',
         [],
         u (''You bring a clear writing style and care for detail. We offer '' @
            ''a friendly culture and flexible hours.'')]\<rparr>"

definition posting_program :: job_description where
  "posting_program =
     \<lparr>title = u ''Technical Program Manager'', company = u ''Adatum'',
      location = None, salary_range = None,
      description = join_lines
        [u (''Adatum needs a technical program manager to steer the rebuild '' @
            ''of its data platform. You know enough SQL to check a migration '' @
            ''and you have run Agile ceremonies for several teams at once.''),
         u ''Responsibilities:'',
         u ''- Track the milestones of the platform rebuild'',
         u ''- Prepare the monthly review for the sponsors'',
         [],
         u (''You like plain words and short meetings. We offer a friendly '' @
            ''culture and flexible hours.'')]\<rparr>"

definition tied_batch :: "job_description list" where
  "tied_batch = [posting_both, posting_data, posting_program]"

text \<open>
  Three orders of the sets of a run: the order in which the members were added, \<open>sql\<close>
  before every other member, and \<open>agile\<close> before every other member.
\<close>

definition added_order :: slots where
  "added_order xs x = 0"

definition sql_first :: slots where
  "sql_first xs x = (if x = u ''sql'' then 0 else 1)"

definition agile_first :: slots where
  "agile_first xs x = (if x = u ''agile'' then 0 else 1)"

text \<open>A posting whose salary range starts at zero, and a batch with no other salary.\<close>

definition posting_commission :: job_description where
  "posting_commission =
     \<lparr>title = u ''Sales Associate'', company = u ''Trey Research'',
      location = None, salary_range = Some (u ''$0 - $50k''),
      description = join_lines
        [u (''Trey Research is opening a sales associate role paid on '' @
            ''commission alone. You will call on clinics in the region, '' @
            ''present our lab services, and close contracts with their buyers.''),
         u ''Responsibilities:'',
         u ''- Visit ten clinics of the region every week'',
         u ''- Log every call and every offer in the shared sheet'',
         [],
         u (''You enjoy meeting people and you keep your promises. We offer '' @
            ''a friendly culture and flexible hours.'')]\<rparr>"

definition commission_batch :: "job_description list" where
  "commission_batch = [posting_commission, posting_sql, posting_agile]"

section \<open>The batch-size gate\<close>

lemma analyze_job_description_work: "snd (analyze_job_description slot nlp d w) = Suc w"
  by (simp add: analyze_job_description_def Let_def)

lemma analyze_each_work: "snd (analyze_each slot nlp ds w) = w + length ds"
  by (induction ds arbitrary: w) (simp_all add: case_prod_beta analyze_job_description_work)

lemma analyze_each_length: "length (fst (analyze_each slot nlp ds w)) = length ds"
  by (induction ds arbitrary: w) (simp_all add: case_prod_beta)

text \<open>The counter is live: a batch that passes the gate adds one per job description.\<close>

lemma enough_data_counts:
  "\<not> int (length descriptions) < min_required \<Longrightarrow>
     snd (analyze_multiple_descriptions slot nlp min_required descriptions work)
       = work + length descriptions"
  by (simp add: analyze_multiple_descriptions_def case_prod_beta analyze_each_work)

text \<open>
  C1. A batch shorter than the configured minimum is refused with
  \<open>InsufficientDataError\<close>, and the count of analysed job descriptions is what it was
  before the call: no job description has been analysed. This holds with and without
  the enhanced backend.
\<close>

theorem insufficient_data_fails_fast:
  assumes "int (length descriptions) < min_required"
  shows "analyze_multiple_descriptions slot nlp min_required descriptions work
           = (Inl InsufficientDataError, work)"
  using assms by (simp add: analyze_multiple_descriptions_def)

theorem insufficient_data_fails_fast_witness:
  "int (length [posting_sql, posting_agile]) < default_min_required \<and>
   analyze_multiple_descriptions added_order None default_min_required [posting_sql, posting_agile] 0
     = (Inl InsufficientDataError, 0)"
proof -
  have short: "int (length [posting_sql, posting_agile]) < default_min_required"
    by (simp add: default_min_required_def)
  from insufficient_data_fails_fast [OF short, of added_order None 0] short show ?thesis
    by simp
qed

section \<open>The taxonomy and the categories of a skill\<close>

lemma first_category_categories_of:
  "first_category s = (case categories_of s of [] \<Rightarrow> None | c # _ \<Rightarrow> Some c)"
proof -
  have "map_option fst (List.find P xs)
          = (case map fst (filter P xs) of [] \<Rightarrow> None | c # _ \<Rightarrow> Some c)"
    for P :: "string \<times> ustr list \<Rightarrow> bool" and xs
    by (induction xs) auto
  then show ?thesis by (simp add: first_category_def categories_of_def)
qed

lemma append_to_filter:
  assumes "first_category x = Some c"
  shows "append_to c x (map (\<lambda>(k, l). (k, filter (\<lambda>s. first_category s = Some k) xs)) tax)
           = map (\<lambda>(k, l). (k, filter (\<lambda>s. first_category s = Some k) (xs @ [x]))) tax"
  using assms by (induction tax) (auto simp: append_to_def)

lemma categorize_fold:
  "fold (\<lambda>skill categorized.
           case first_category skill of
             None \<Rightarrow> categorized
           | Some category \<Rightarrow> append_to category skill categorized)
        sks (map (\<lambda>(category, skill_list). (category, [])) tax)
   = map (\<lambda>(k, l). (k, filter (\<lambda>s. first_category s = Some k) sks)) tax"
proof (induction sks rule: rev_induct)
  case Nil
  then show ?case by simp
next
  case (snoc x xs)
  show ?case
  proof (cases "first_category x")
    case None
    then show ?thesis using snoc by simp
  next
    case (Some c)
    then show ?thesis using snoc append_to_filter [OF Some] by simp
  qed
qed

text \<open>Each category keeps, in order, the skills whose first category it is.\<close>

lemma categorize_skills_eq:
  "categorize_skills sks =
     filter (\<lambda>(k, v). v \<noteq> [])
       (map (\<lambda>(k, l). (k, filter (\<lambda>s. first_category s = Some k) sks)) skill_patterns)"
  by (simp add: categorize_skills_def categorize_fold)

lemma categorized_under_first:
  "(c, l) \<in> set (categorize_skills sks) \<Longrightarrow> s \<in> set l \<Longrightarrow> first_category s = Some c"
  by (auto simp: categorize_skills_eq)

lemma shared_phrases:
  "filter (\<lambda>p. length (categories_of p) \<noteq> 1) all_phrases = [u ''sql'', u ''sql'']"
  by code_simp

lemma sql_categories: "categories_of (u ''sql'') = [''technical'', ''analytics'']"
  by code_simp

lemma one_category:
  assumes "p \<in> set all_phrases" and "p \<noteq> u ''sql''"
  shows "length (categories_of p) = 1"
proof (rule ccontr)
  assume "length (categories_of p) \<noteq> 1"
  with assms(1) have "p \<in> set (filter (\<lambda>p. length (categories_of p) \<noteq> 1) all_phrases)"
    by simp
  then have "p \<in> set [u ''sql'', u ''sql'']"
    unfolding shared_phrases .
  then show False using assms(2) by simp
qed

text \<open>
  C9, as stated, fails: the phrase \<open>sql\<close> is listed under two categories of the default
  taxonomy, \<open>technical\<close> and \<open>analytics\<close>.
\<close>

theorem sql_in_two_categories:
  "categories_of (u ''sql'') = [''technical'', ''analytics'']"
  by (rule sql_categories)

text \<open>
  C9, amended. Every phrase of the default taxonomy other than \<open>sql\<close> is listed under
  exactly one category; \<open>sql\<close> is listed under \<open>technical\<close> and \<open>analytics\<close>. The
  skills of a document are grouped by first match: a skill stands only in the list of
  the first category that lists it, so no skill is grouped under two categories.
\<close>

theorem one_category_except_sql:
  "(\<forall>p \<in> set all_phrases. p \<noteq> u ''sql'' \<longrightarrow> length (categories_of p) = 1) \<and>
   categories_of (u ''sql'') = [''technical'', ''analytics''] \<and>
   (\<forall>sks c l s. (c, l) \<in> set (categorize_skills sks) \<and> s \<in> set l
        \<longrightarrow> first_category s = Some c)"
  using one_category sql_categories categorized_under_first by blast

theorem one_category_except_sql_witness:
  "u ''python'' \<in> set all_phrases \<and> u ''python'' \<noteq> u ''sql'' \<and>
   length (categories_of (u ''python'')) = 1 \<and>
   categorize_skills [u ''sql'', u ''python'', u ''agile'']
     = [(''technical'', [u ''sql'', u ''python'']), (''agile'', [u ''agile''])] \<and>
   first_category (u ''sql'') = Some ''technical''"
proof -
  have phrase: "u ''python'' \<in> set all_phrases \<and> u ''python'' \<noteq> u ''sql''"
    by code_simp
  have grouped: "categorize_skills [u ''sql'', u ''python'', u ''agile'']
     = [(''technical'', [u ''sql'', u ''python'']), (''agile'', [u ''agile''])]"
    by code_simp
  from one_category_except_sql phrase
  have one: "length (categories_of (u ''python'')) = 1"
    by blast
  have "(''technical'', [u ''sql'', u ''python''])
          \<in> set (categorize_skills [u ''sql'', u ''python'', u ''agile''])"
    by (simp only: grouped list.set insert_iff simp_thms)
  moreover have "u ''sql'' \<in> set [u ''sql'', u ''python'']"
    by simp
  ultimately have "first_category (u ''sql'') = Some ''technical''"
    using one_category_except_sql by blast
  with phrase grouped one show ?thesis
    by simp
qed

section \<open>Experience level\<close>

lemma experience_level_cases:
  "extract_experience_level text =
     (if found False lead_rx (lower text) then u ''Lead/Principal''
      else if found False senior_rx (lower text) then u ''Senior''
      else if found False entry_rx (lower text) then u ''Entry-Level''
      else (case extract_years_experience text of
              None \<Rightarrow> u ''Mid-Level''
            | Some y \<Rightarrow>
                if y = 0 then u ''Mid-Level''
                else if 10 \<le> y then u ''Lead/Principal''
                else if 6 \<le> y then u ''Senior''
                else if 3 \<le> y then u ''Mid-Level''
                else u ''Entry-Level''))"
  by (simp add: extract_experience_level_def Let_def split: option.splits)

text \<open>The title decides before the years do.\<close>

lemma senior_before_years:
  "extract_experience_level (u ''Senior Product Manager, 10+ years experience'') = u ''Senior''"
  by code_simp

text \<open>
  C3. The priority of the title terms over the years, and the thresholds on the years,
  are as the claim says, with one exception, at zero years: the text
  \<open>0-2 years of experience\<close> has 0 as its years of experience, below every threshold,
  and yet its level is \<open>Mid-Level\<close>, the level of a text without years, not
  \<open>Entry-Level\<close>. The test \<open>if years:\<close> takes the number 0 for no number.
\<close>

theorem zero_years_is_mid_level:
  "extract_years_experience (u ''0-2 years of experience'') = Some 0 \<and>
   extract_experience_level (u ''0-2 years of experience'') = u ''Mid-Level''"
  by code_simp

section \<open>Construction of a job description\<close>








section \<open>What the matcher finds\<close>

text \<open>
  A search succeeds exactly when the pattern matches at some split of the text; a
  literal matches the characters it spells.
\<close>

lemma boundary_word_edge: "boundary (i, prev_of pre, cs, g) = word_edge pre cs"
  by (cases cs) (auto simp: boundary_def prev_is_def next_is_def rest_def prev_of_def word_edge_def)

lemma prev_of_append: "prev_of (pre @ w) = (if w = [] then prev_of pre else Some (last w))"
  by (simp add: prev_of_def)

lemma ends_lit:
  "ends ic (lit p) (i, q, cs, g) =
     (if length p \<le> length cs \<and> list_all2 (chr_eq ic) (take (length p) cs) p
      then [(i + length p, (if p = [] then q else Some (last (take (length p) cs))),
             drop (length p) cs, g)]
      else [])"
proof (induction p arbitrary: i q cs)
  case Nil
  show ?case by (simp add: lit_def seqs_def)
next
  case (Cons c p)
  have unf: "lit (c # p) = Seq (Chr c) (lit p)"
    by (simp add: lit_def seqs_def)
  show ?case
  proof (cases cs)
    case Nil
    then show ?thesis by (simp add: unf next_is_def rest_def)
  next
    case (Cons x cs')
    show ?thesis
    proof (cases "chr_eq ic x c")
      case False
      then show ?thesis using Cons by (simp add: unf next_is_def rest_def)
    next
      case True
      have "ends ic (lit (c # p)) (i, q, cs, g) = ends ic (lit p) (Suc i, Some x, cs', g)"
        using True Cons by (simp add: unf next_is_def rest_def advance_def)
      then show ?thesis using True Cons Cons.IH [of "Suc i" "Some x" cs']
        by (cases "p = []") auto
    qed
  qed
qed

lemma search_from_iff:
  "search_from ic r (length pre0) (prev_of pre0) cs \<noteq> None \<longleftrightarrow>
     (\<exists>pre post. cs = pre @ post \<and>
        ends ic r (length (pre0 @ pre), prev_of (pre0 @ pre), post, no_caps) \<noteq> [])"
proof (induction cs arbitrary: pre0)
  case Nil
  show ?case by (auto split: list.splits)
next
  case (Cons c cs)
  have step: "search_from ic r (length pre0) (prev_of pre0) (c # cs) \<noteq> None \<longleftrightarrow>
      ends ic r (length pre0, prev_of pre0, c # cs, no_caps) \<noteq> [] \<or>
      search_from ic r (length (pre0 @ [c])) (prev_of (pre0 @ [c])) cs \<noteq> None"
    by (auto simp: prev_of_def split: list.splits)
  show ?case
  proof
    assume "search_from ic r (length pre0) (prev_of pre0) (c # cs) \<noteq> None"
    with step consider
        (here) "ends ic r (length pre0, prev_of pre0, c # cs, no_caps) \<noteq> []"
      | (later) "search_from ic r (length (pre0 @ [c])) (prev_of (pre0 @ [c])) cs \<noteq> None"
      by blast
    then show "\<exists>pre post. c # cs = pre @ post \<and>
        ends ic r (length (pre0 @ pre), prev_of (pre0 @ pre), post, no_caps) \<noteq> []"
    proof cases
      case here
      then have "c # cs = [] @ (c # cs) \<and>
          ends ic r (length (pre0 @ []), prev_of (pre0 @ []), c # cs, no_caps) \<noteq> []"
        by simp
      then show ?thesis by blast
    next
      case later
      with Cons.IH [of "pre0 @ [c]"] obtain pre post where
        "cs = pre @ post"
        "ends ic r (length ((pre0 @ [c]) @ pre), prev_of ((pre0 @ [c]) @ pre), post, no_caps) \<noteq> []"
        by blast
      then have "c # cs = (c # pre) @ post \<and>
          ends ic r (length (pre0 @ (c # pre)), prev_of (pre0 @ (c # pre)), post, no_caps) \<noteq> []"
        by simp
      then show ?thesis by blast
    qed
  next
    assume "\<exists>pre post. c # cs = pre @ post \<and>
        ends ic r (length (pre0 @ pre), prev_of (pre0 @ pre), post, no_caps) \<noteq> []"
    then obtain pre post where pp: "c # cs = pre @ post"
        "ends ic r (length (pre0 @ pre), prev_of (pre0 @ pre), post, no_caps) \<noteq> []"
      by blast
    show "search_from ic r (length pre0) (prev_of pre0) (c # cs) \<noteq> None"
    proof (cases pre)
      case Nil
      with pp show ?thesis using step by simp
    next
      case (Cons x pre')
      with pp have "cs = pre' @ post" "x = c" by simp_all
      moreover from pp Cons \<open>x = c\<close>
      have "ends ic r (length ((pre0 @ [c]) @ pre'), prev_of ((pre0 @ [c]) @ pre'), post, no_caps) \<noteq> []"
        by simp
      ultimately have "search_from ic r (length (pre0 @ [c])) (prev_of (pre0 @ [c])) cs \<noteq> None"
        using Cons.IH [of "pre0 @ [c]"] by blast
      then show ?thesis using step by blast
    qed
  qed
qed

lemma found_iff:
  "found ic r text \<longleftrightarrow>
     (\<exists>pre post. text = pre @ post \<and> ends ic r (length pre, prev_of pre, post, no_caps) \<noteq> [])"
  using search_from_iff [of ic r "[]" "text"]
  by (simp add: found_def re_search_def prev_of_def)

lemma ends_whole:
  "ends ic (whole p) (length pre, prev_of pre, cs, g) \<noteq> [] \<longleftrightarrow>
     word_edge pre cs \<and> length p \<le> length cs \<and>
     list_all2 (chr_eq ic) (take (length p) cs) p \<and>
     word_edge (pre @ take (length p) cs) (drop (length p) cs)"
proof -
  have w: "whole p = Seq WordB (Seq (lit p) (Seq WordB Empty))"
    by (simp add: whole_def seqs_def)
  have pv: "(if p = [] then prev_of pre else Some (last (take (length p) cs)))
              = prev_of (pre @ take (length p) cs)" if "length p \<le> length cs"
    using that by (auto simp: prev_of_append)
  have b2: "boundary (length pre + length p, prev_of (pre @ take (length p) cs), drop (length p) cs, g)
              = word_edge (pre @ take (length p) cs) (drop (length p) cs)"
    by (rule boundary_word_edge)
  show ?thesis
    by (simp add: w ends_lit boundary_word_edge pv b2)
qed

section \<open>Detection of skills\<close>

lemma list_all2_lower: "length w = length p \<Longrightarrow> list_all2 (chr_eq True) w p \<longleftrightarrow> lower w = lower p"
  by (induction w p rule: list_induct2) (auto simp: chr_eq_def lower_def)

lemma skill_found_iff: "skill_found p text \<longleftrightarrow> occurs_whole p text"
proof
  assume "skill_found p text"
  then obtain pre post where t: "text = pre @ post"
      and e: "ends True (whole p) (length pre, prev_of pre, post, no_caps) \<noteq> []"
    unfolding skill_found_def found_iff by blast
  from e have we: "word_edge pre post" and len: "length p \<le> length post"
      and eq: "list_all2 (chr_eq True) (take (length p) post) p"
      and we2: "word_edge (pre @ take (length p) post) (drop (length p) post)"
    unfolding ends_whole by simp_all
  let ?w = "take (length p) post" and ?post = "drop (length p) post"
  have "text = pre @ ?w @ ?post" using t by simp
  moreover have "lower ?w = lower p" using eq len by (simp add: list_all2_lower)
  moreover have "word_edge pre (?w @ ?post)" using we by simp
  ultimately show "occurs_whole p text" using we2 unfolding occurs_whole_def by blast
next
  assume "occurs_whole p text"
  then obtain pre w post where t: "text = pre @ w @ post" and lw: "lower w = lower p"
      and we: "word_edge pre (w @ post)" and we2: "word_edge (pre @ w) post"
    unfolding occurs_whole_def by blast
  from lw have len: "length w = length p"
    by (metis length_map lower_def)
  then have "list_all2 (chr_eq True) w p" using lw by (simp add: list_all2_lower)
  with len we we2 have "ends True (whole p) (length pre, prev_of pre, w @ post, no_caps) \<noteq> []"
    unfolding ends_whole by simp
  with t show "skill_found p text"
    unfolding skill_found_def found_iff by blast
qed

lemma fold_skills_inner:
  "set (fold (\<lambda>skill sk. if P skill then set_add skill sk else sk) l acc)
     = set acc \<union> {s \<in> set l. P s}"
  by (induction l arbitrary: acc) (auto simp: set_add_def)

lemma fold_skills_outer:
  "set (fold (\<lambda>(category, skill_list) sk.
               fold (\<lambda>skill sk. if P skill then set_add skill sk else sk) skill_list sk)
             tax acc)
     = set acc \<union> {s \<in> set (concat (map snd tax)). P s}"
  by (induction tax arbitrary: acc) (auto simp: fold_skills_inner)

lemma set_found_skills: "set (found_skills txt) = {p \<in> set all_phrases. skill_found p txt}"
  by (simp add: found_skills_def all_phrases_def fold_skills_outer)

lemma set_list_of: "set (list_of slot xs) = set xs"
  by (simp add: list_of_def)

lemma set_extract_skills_rules:
  "set (extract_skills_rules slot txt) = {p \<in> set all_phrases. skill_found p txt}"
  by (simp add: extract_skills_rules_def set_list_of set_found_skills)

lemma distinct_fold_inner:
  "distinct acc \<Longrightarrow> distinct (fold (\<lambda>skill sk. if P skill then set_add skill sk else sk) l acc)"
  by (induction l arbitrary: acc) (auto simp: set_add_def)

lemma distinct_fold_outer:
  "distinct acc \<Longrightarrow>
     distinct (fold (\<lambda>(category, skill_list) sk.
                 fold (\<lambda>skill sk. if P skill then set_add skill sk else sk) skill_list sk)
               tax acc)"
  by (induction tax arbitrary: acc) (auto simp: distinct_fold_inner)

lemma distinct_extract_skills_rules: "distinct (extract_skills_rules slot txt)"
  by (simp add: extract_skills_rules_def list_of_def found_skills_def distinct_fold_outer)

lemma sql_phrase: "u ''sql'' \<in> set all_phrases \<and> u ''api'' \<in> set all_phrases"
  by code_simp

lemma between_blanks:
  assumes "lower w = lower p" and "p \<noteq> []"
    and "is_word (hd w)" and "is_word (last w)"
  shows "occurs_whole p (pre @ [32] @ w @ [32] @ post)"
proof -
  from assms(1,2) have ne: "w \<noteq> []"
    by (auto simp: lower_def)
  have sp: "\<not> is_word 32"
    by (simp add: is_word_def is_digit_def)
  have "pre @ [32] @ w @ [32] @ post = (pre @ [32]) @ w @ ([32] @ post)"
    by simp
  moreover have "word_edge (pre @ [32]) (w @ [32] @ post)"
    using ne sp assms(3) by (simp add: word_edge_def)
  moreover have "word_edge ((pre @ [32]) @ w) ([32] @ post)"
    using ne sp assms(4) by (simp add: word_edge_def)
  ultimately show ?thesis
    using assms(1) unfolding occurs_whole_def by blast
qed

lemma strong_sql_skills:
  "u ''Strong SQL skills'' = u ''Strong'' @ [32] @ u ''SQL'' @ [32] @ u ''skills''"
  "lower (u ''Strong SQL skills'') = u ''strong'' @ [32] @ u ''sql'' @ [32] @ u ''skills''"
  by code_simp+

lemma sql_word:
  "lower (u ''SQL'') = lower (u ''sql'')" "u ''sql'' \<noteq> []"
  "is_word (hd (u ''SQL''))" "is_word (last (u ''SQL''))"
  "is_word (hd (u ''sql''))" "is_word (last (u ''sql''))"
  by code_simp+

lemma sql_in_strong_sql_skills:
  "occurs_whole (u ''sql'') (pre @ u ''Strong SQL skills'' @ post)"
  "occurs_whole (u ''sql'') (lower (pre @ u ''Strong SQL skills'' @ post))"
proof -
  have "occurs_whole (u ''sql'') ((pre @ u ''Strong'') @ [32] @ u ''SQL'' @ [32] @ (u ''skills'' @ post))"
    by (rule between_blanks) (rule sql_word)+
  then show "occurs_whole (u ''sql'') (pre @ u ''Strong SQL skills'' @ post)"
    by (simp add: strong_sql_skills(1))
  have "occurs_whole (u ''sql'')
          ((lower pre @ u ''strong'') @ [32] @ u ''sql'' @ [32] @ (u ''skills'' @ lower post))"
    by (rule between_blanks) (simp_all add: sql_word)
  then show "occurs_whole (u ''sql'') (lower (pre @ u ''Strong SQL skills'' @ post))"
    using strong_sql_skills(2) by (simp add: lower_def)
qed

lemma not_inside_words:
  "\<not> skill_found (u ''sql'') (u ''Sqlite'')" "\<not> skill_found (u ''sql'') (lower (u ''Sqlite''))"
  "\<not> skill_found (u ''api'') (u ''rapid'')"
  by code_simp+

text \<open>
  C5. The rules detect a phrase of the taxonomy exactly when it occurs in the text, up
  to case, between word boundaries. So \<open>sql\<close> is detected in every text that contains
  \<open>Strong SQL skills\<close>, as it stands and in lower case, which is how the analyzer
  passes a description on; it is not detected in \<open>Sqlite\<close>, nor \<open>api\<close> in \<open>rapid\<close>.
\<close>

theorem skills_on_whole_phrases:
  "(\<forall>pre post.
      u ''sql'' \<in> set (extract_skills_rules slot (pre @ u ''Strong SQL skills'' @ post)) \<and>
      u ''sql'' \<in> set (extract_skills_rules slot (lower (pre @ u ''Strong SQL skills'' @ post)))) \<and>
   u ''sql'' \<notin> set (extract_skills_rules slot (u ''Sqlite'')) \<and>
   u ''sql'' \<notin> set (extract_skills_rules slot (lower (u ''Sqlite''))) \<and>
   u ''api'' \<notin> set (extract_skills_rules slot (u ''rapid'')) \<and>
   (\<forall>txt p. p \<in> set (extract_skills_rules slot txt)
              \<longleftrightarrow> p \<in> set all_phrases \<and> occurs_whole p txt)"
  using sql_in_strong_sql_skills not_inside_words sql_phrase
  by (simp add: set_extract_skills_rules skill_found_iff)

section \<open>Counters and rankings\<close>

lemma Counter_snoc: "Counter (xs @ [x]) = count_one x (Counter xs)"
  by (simp add: Counter_def)

lemma keys_count_one:
  "map fst (count_one x c) = (if x \<in> set (map fst c) then map fst c else map fst c @ [x])"
  by (induction c) force+

lemma map_of_count_one:
  "map_of (count_one x c) k =
     (if k = x then Some (case map_of c x of None \<Rightarrow> 1 | Some n \<Rightarrow> Suc n) else map_of c k)"
  by (induction c) auto

lemma keys_Counter: "set (map fst (Counter xs)) = set xs"
  by (induction xs rule: rev_induct) (auto simp: Counter_snoc keys_count_one Counter_def)

lemma distinct_keys_Counter: "distinct (map fst (Counter xs))"
proof (induction xs rule: rev_induct)
  case Nil
  show ?case by (simp add: Counter_def)
next
  case (snoc x xs)
  then show ?case using keys_Counter [of xs]
    by (simp add: Counter_snoc keys_count_one)
qed

lemma map_of_Counter:
  "map_of (Counter xs) k = (if k \<in> set xs then Some (count_list xs k) else None)"
proof (induction xs arbitrary: k rule: rev_induct)
  case Nil
  show ?case by (simp add: Counter_def)
next
  case (snoc x xs)
  show ?case
    by (simp add: Counter_snoc map_of_count_one snoc)
qed

lemma set_Counter: "set (Counter xs) = (\<lambda>k. (k, count_list xs k)) ` set xs"
proof -
  have "(k, c) \<in> set (Counter xs) \<longleftrightarrow> k \<in> set xs \<and> c = count_list xs k" for k c
    using map_of_eq_Some_iff [OF distinct_keys_Counter, of xs k c]
    by (auto simp: map_of_Counter split: if_splits)
  then show ?thesis by auto
qed

lemma first_seen_snoc_old: "k \<in> set xs \<Longrightarrow> first_seen (xs @ [x]) k = first_seen xs k"
  by (simp add: first_seen_def)

lemma first_seen_snoc_new:
  assumes "x \<notin> set xs"
  shows "first_seen (xs @ [x]) x = length xs"
proof -
  have "takeWhile (\<lambda>y. y \<noteq> x) (xs @ [x]) = xs @ takeWhile (\<lambda>y. y \<noteq> x) [x]"
    by (rule takeWhile_append2) (use assms in auto)
  then show ?thesis by (simp add: first_seen_def)
qed

lemma first_seen_less: "k \<in> set xs \<Longrightarrow> first_seen xs k < length xs"
  unfolding first_seen_def
  by (induction xs) auto

lemma Counter_first_seen:
  "sorted_wrt (\<lambda>a b. first_seen xs a < first_seen xs b) (map fst (Counter xs))"
proof (induction xs rule: rev_induct)
  case Nil
  show ?case by (simp add: Counter_def)
next
  case (snoc x xs)
  let ?ks = "map fst (Counter xs)"
  have old: "sorted_wrt (\<lambda>a b. first_seen (xs @ [x]) a < first_seen (xs @ [x]) b) ?ks"
    using snoc keys_Counter [of xs]
    by (auto intro!: sorted_wrt_mono_rel [OF _ snoc] simp: first_seen_snoc_old)
  show ?case
  proof (cases "x \<in> set xs")
    case True
    then show ?thesis using old keys_Counter [of xs]
      by (simp add: Counter_snoc keys_count_one)
  next
    case False
    have "\<forall>a \<in> set xs. first_seen (xs @ [x]) a < first_seen (xs @ [x]) x"
      using False
      by (auto simp: first_seen_snoc_old first_seen_snoc_new first_seen_less)
    then show ?thesis using old False keys_Counter [of xs]
      by (simp add: Counter_snoc keys_count_one sorted_wrt_append)
  qed
qed

lemma sorted_then_stable:
  fixes f :: "'b \<Rightarrow> int"
  assumes "sorted (map f ys)" and "\<And>k. sorted_wrt R (filter (\<lambda>y. f y = k) ys)"
  shows "sorted_wrt (\<lambda>a b. f a < f b \<or> (f a = f b \<and> R a b)) ys"
  using assms
proof (induction ys)
  case Nil
  show ?case by simp
next
  case (Cons a ys)
  have tail: "sorted_wrt (\<lambda>a b. f a < f b \<or> (f a = f b \<and> R a b)) ys"
  proof (rule Cons.IH)
    show "sorted (map f ys)" using Cons.prems(1) by simp
    fix k
    from Cons.prems(2) [of k] show "sorted_wrt R (filter (\<lambda>y. f y = k) ys)"
      by (cases "f a = k") simp_all
  qed
  have "f a < f b \<or> (f a = f b \<and> R a b)" if "b \<in> set ys" for b
  proof (cases "f a = f b")
    case True
    from Cons.prems(2) [of "f a"] that True show ?thesis by auto
  next
    case False
    moreover from Cons.prems(1) that have "f a \<le> f b" by auto
    ultimately show ?thesis by simp
  qed
  with tail show ?case by simp
qed

lemma most_common_ranked: "frequency_table n xs (most_common n (Counter xs))"
proof -
  let ?f = "\<lambda>kc :: 'a \<times> nat. - int (snd kc)"
  let ?R = "\<lambda>a b :: 'a \<times> nat. first_seen xs (fst a) < first_seen xs (fst b)"
  let ?full = "sort_key ?f (Counter xs)"
  have inj: "inj_on fst (set (Counter xs))"
    using distinct_keys_Counter [of xs] by (simp add: distinct_map)
  have d: "distinct (map fst ?full)"
    using distinct_keys_Counter [of xs] by (simp add: distinct_map)
  have s: "set ?full = (\<lambda>k. (k, count_list xs k)) ` set xs"
    by (simp add: set_Counter)
  have R: "sorted_wrt ?R (Counter xs)"
    using Counter_first_seen [of xs] by (simp add: sorted_wrt_map)
  have "sorted_wrt (\<lambda>a b. ?f a < ?f b \<or> (?f a = ?f b \<and> ?R a b)) ?full"
  proof (rule sorted_then_stable)
    show "sorted (map ?f ?full)" by (rule sorted_sort_key)
    fix k
    show "sorted_wrt ?R (filter (\<lambda>y. ?f y = k) ?full)"
      unfolding sort_key_stable using R by (rule sorted_wrt_filter)
  qed
  then have "sorted_wrt (ranks_before xs) ?full"
    by (rule sorted_wrt_mono_rel [rotated]) (auto simp: ranks_before_def)
  with d s show ?thesis
    unfolding frequency_table_def most_common_def by blast
qed

lemma length_most_common: "length (most_common n c) \<le> n"
  by (simp add: most_common_def)

text \<open>The head of a ranking of skills that all postings of a batch of three name.\<close>

lemma hd_sort_key_least:
  fixes f :: "'a \<Rightarrow> int"
  assumes "x \<in> set xs" and "\<And>y. y \<in> set xs \<Longrightarrow> y \<noteq> x \<Longrightarrow> f x < f y"
  shows "hd (sort_key f xs) = x"
proof -
  let ?ys = "sort_key f xs"
  have s: "set ?ys = set xs" by simp
  with assms(1) obtain z zs where ys: "?ys = z # zs"
    by (cases ?ys) auto
  have "sorted (map f ?ys)" by (rule sorted_sort_key)
  with ys have le: "\<forall>y \<in> set zs. f z \<le> f y" by simp
  have z: "z \<in> set xs" using s ys by auto
  have "z = x"
  proof (rule ccontr)
    assume n: "z \<noteq> x"
    with assms(1) s ys have "x \<in> set zs" by auto
    with le have "f z \<le> f x" by simp
    moreover from assms(2) [OF z n] have "f x < f z" .
    ultimately show False by simp
  qed
  with ys show ?thesis by simp
qed

lemma sort_key_Cons_least:
  fixes f :: "'a \<Rightarrow> int"
  assumes "\<forall>y \<in> set ys. f a \<le> f y"
  shows "sort_key f (a # ys) = a # sort_key f ys"
proof (cases "sort_key f ys")
  case Nil
  then show ?thesis by simp
next
  case (Cons z zs)
  then have "z \<in> set (sort_key f ys)" by simp
  then have "z \<in> set ys" by simp
  with assms have "f a \<le> f z" by simp
  with Cons show ?thesis by simp
qed

lemma fold_count_one_head:
  "\<exists>kcs'. fold count_one xs ((x, c) # kcs) = (x, c + count_list xs x) # kcs'"
proof (induction xs arbitrary: c kcs)
  case Nil
  show ?case by simp
next
  case (Cons y ys)
  show ?case
  proof (cases "x = y")
    case True
    with Cons [of "Suc c" kcs] show ?thesis by simp
  next
    case False
    with Cons [of c "count_one y kcs"] show ?thesis by simp
  qed
qed

lemma Counter_head:
  assumes "xs \<noteq> []"
  shows "\<exists>kcs. Counter xs = (hd xs, count_list xs (hd xs)) # kcs"
proof -
  from assms obtain a as where xs: "xs = a # as" by (cases xs) auto
  from fold_count_one_head [of as a 1 "[]"] show ?thesis
    by (auto simp: xs Counter_def)
qed

lemma hd_most_common:
  assumes "xs \<noteq> []" and "0 < n" and "\<And>y. count_list xs y \<le> count_list xs (hd xs)"
  shows "hd (most_common n (Counter xs)) = (hd xs, count_list xs (hd xs))"
proof -
  let ?f = "\<lambda>kc :: 'a \<times> nat. - int (snd kc)"
  from Counter_head [OF assms(1)] obtain kcs where
    c: "Counter xs = (hd xs, count_list xs (hd xs)) # kcs" by blast
  have "?f (hd xs, count_list xs (hd xs)) \<le> ?f kc" if "kc \<in> set kcs" for kc
  proof -
    from that c have "kc \<in> set (Counter xs)" by simp
    then obtain k where "kc = (k, count_list xs k)"
      unfolding set_Counter by blast
    then show ?thesis using assms(3) [of k] by simp
  qed
  then have "sort_key ?f (Counter xs) = (hd xs, count_list xs (hd xs)) # sort_key ?f kcs"
    unfolding c by (intro sort_key_Cons_least) blast
  then show ?thesis using assms(2)
    by (cases n) (simp_all add: most_common_def)
qed

lemma count_list_distinct: "distinct xs \<Longrightarrow> count_list xs y = (if y \<in> set xs then 1 else 0)"
  by (induction xs) auto

lemma top_of_three:
  assumes "distinct l1" and "distinct l2" and "distinct l3"
    and "x \<in> set l1" and "x \<in> set l2" and "x \<in> set l3" and "hd l1 = x"
  shows "hd (most_common 50 (Counter (concat [l1, l2, l3]))) = (x, 3)"
proof -
  let ?xs = "concat [l1, l2, l3]"
  have c: "count_list ?xs y = (if y \<in> set l1 then 1 else 0) + (if y \<in> set l2 then 1 else 0)
             + (if y \<in> set l3 then 1 else 0)" for y
    using assms(1,2,3) by (simp add: count_list_distinct)
  have ne: "?xs \<noteq> []" using assms(4) by auto
  have h: "hd ?xs = x" using assms(4,7) by (cases l1) auto
  have cx: "count_list ?xs x = 3" using assms(1-6) by (simp add: count_list_distinct)
  have "count_list ?xs y \<le> count_list ?xs (hd ?xs)" for y
    unfolding h cx using assms(1,2,3) by (simp add: count_list_distinct)
  from hd_most_common [OF ne _ this] show ?thesis
    unfolding h cx by simp
qed

section \<open>The aggregate of a batch\<close>

lemma extract_salary_info_shape: "salary_shape (extract_salary_info sr txt)"
  by (auto simp: extract_salary_info_def salary_shape_def full_salary_def Let_def
           split: option.splits list.splits sum.splits)

lemma insight_salary:
  "i_salary_range (fst (analyze_job_description slot nlp d k))
     = extract_salary_info (salary_range d) (description d)"
  by (simp add: analyze_job_description_def Let_def)

lemma analyze_each_salaries:
  "map i_salary_range (fst (analyze_each slot nlp ds w))
     = map (\<lambda>d. extract_salary_info (salary_range d) (description d)) ds"
  by (induction ds arbitrary: w) (simp_all add: case_prod_beta insight_salary)

lemma analyze_each_salary_shape:
  assumes "i \<in> set (fst (analyze_each slot nlp ds w))"
  shows "salary_shape (i_salary_range i)"
proof -
  from assms have "i_salary_range i \<in> set (map i_salary_range (fst (analyze_each slot nlp ds w)))"
    by simp
  then show ?thesis
    unfolding analyze_each_salaries by (auto simp: extract_salary_info_shape)
qed

lemma truthy_min_full:
  assumes "salary_shape d" and "truthy (get d ''min'')"
  shows "\<exists>lo hi sr. d = full_salary lo hi sr"
  using assms by (auto simp: salary_shape_def get_def)

lemma ints_VInt: "ints (map VInt ns) = Inr ns"
  by (induction ns) auto

lemma field_values_full:
  assumes "\<forall>d \<in> set ds. \<exists>lo hi sr. d = full_salary lo hi sr"
  shows "\<exists>los his. length los = length ds \<and> length his = length ds \<and>
           field_values ''min'' ds = map VInt los \<and> field_values ''max'' ds = map VInt his"
  using assms
proof (induction ds)
  case Nil
  show ?case by (simp add: field_values_def)
next
  case (Cons d ds)
  then obtain los his where ih: "length los = length ds" "length his = length ds"
      "field_values ''min'' ds = map VInt los" "field_values ''max'' ds = map VInt his"
    by auto
  from Cons.prems obtain lo hi sr where d: "d = full_salary lo hi sr"
    by auto
  have "field_values ''min'' (d # ds) = map VInt (lo # los)"
       "field_values ''max'' (d # ds) = map VInt (hi # his)"
    using ih d by (simp_all add: field_values_def get_def full_salary_def)
  moreover have "length (lo # los) = length (d # ds)" "length (hi # his) = length (d # ds)"
    using ih by simp_all
  ultimately show ?case by blast
qed

lemma aggregate_salary_data_full:
  assumes "ds \<noteq> []" and "\<forall>d \<in> set ds. \<exists>lo hi sr. d = full_salary lo hi sr"
  shows "\<exists>s. aggregate_salary_data ds = Inr s \<and> s \<noteq> [] \<and>
             get s ''sample_size'' = Some (VInt (int (length ds)))"
proof -
  from field_values_full [OF assms(2)] obtain los his where
    l: "length los = length ds" "length his = length ds"
       "field_values ''min'' ds = map VInt los" "field_values ''max'' ds = map VInt his"
    by blast
  with assms(1) have "los \<noteq> []" "his \<noteq> []" by auto
  then show ?thesis using assms(1) l
    by (simp add: aggregate_salary_data_def ints_VInt get_def)
qed

lemma find_common_patterns_ok:
  assumes "ins \<noteq> []"
  shows "\<exists>cr. find_common_patterns ins = Inr cr \<and>
     get cr ''top_skills''
       = Some (VList (map fst (most_common 10 (Counter (concat (map skills ins)))))) \<and>
     get cr ''education_requirement_frequency''
       = Some (VFloat (Fract (int (length (filter (\<lambda>i. required_education i \<noteq> []) ins)))
                             (int (length ins))))"
  using assms by (simp add: find_common_patterns_def Let_def get_def)

lemma generate_market_comparison_ok:
  assumes "ins \<noteq> []"
  shows "\<exists>mc cr. generate_market_comparison ins = Inr mc \<and>
     get mc ''experience_levels'' = Some (VCounter (Counter (map experience_level ins))) \<and>
     get mc ''remote_policies'' = Some (VCounter (Counter (map remote_policy ins))) \<and>
     get mc ''common_requirements'' = Some (VDict cr) \<and>
     get cr ''top_skills''
       = Some (VList (map fst (most_common 10 (Counter (concat (map skills ins)))))) \<and>
     get cr ''education_requirement_frequency''
       = Some (VFloat (Fract (int (length (filter (\<lambda>i. required_education i \<noteq> []) ins)))
                             (int (length ins))))"
proof -
  from find_common_patterns_ok [OF assms] obtain cr where
    "find_common_patterns ins = Inr cr"
    "get cr ''top_skills''
       = Some (VList (map fst (most_common 10 (Counter (concat (map skills ins))))))"
    "get cr ''education_requirement_frequency''
       = Some (VFloat (Fract (int (length (filter (\<lambda>i. required_education i \<noteq> []) ins)))
                             (int (length ins))))"
    by blast
  then show ?thesis
    by (simp add: generate_market_comparison_def get_def)
qed

lemma generate_market_comparison_empty: "generate_market_comparison [] = Inl ZeroDivisionError"
  by (simp add: generate_market_comparison_def find_common_patterns_def Let_def)

lemma aggregate_Inr:
  assumes "aggregate n ins = Inr r"
  shows "ins \<noteq> []"
    and "insights r = ins" and "total_analyzed r = n"
    and "common_skills r = most_common 50 (Counter (concat (map skills ins)))"
    and "common_responsibilities r = most_common 30 (Counter (concat (map responsibilities ins)))"
    and "common_qualifications r = most_common 30 (Counter (concat (map qualifications ins)))"
    and "salary_insights r =
           (if parsed_salaries ins = [] then None
            else (case aggregate_salary_data (parsed_salaries ins) of
                    Inl e \<Rightarrow> None | Inr s \<Rightarrow> Some s))"
    and "parsed_salaries ins \<noteq> [] \<Longrightarrow> \<exists>s. aggregate_salary_data (parsed_salaries ins) = Inr s"
    and "\<exists>mc. generate_market_comparison ins = Inr mc \<and> market_comparison r = Some mc"
  using assms generate_market_comparison_empty
  by (auto simp: aggregate_def Let_def parsed_salaries_def split: sum.splits if_splits)

lemma analyze_Inr:
  assumes "analyze_multiple_descriptions slot nlp m ds w = (Inr r, w')"
  shows "aggregate (length ds) (fst (analyze_each slot nlp ds w)) = Inr r"
    and "w' = w + length ds" and "\<not> int (length ds) < m"
  using assms analyze_each_work [of slot nlp ds w]
  by (auto simp: analyze_multiple_descriptions_def case_prod_beta split: if_splits)

lemma aggregate_ok:
  assumes "ins \<noteq> []" and "\<forall>i \<in> set ins. salary_shape (i_salary_range i)"
  shows "\<exists>r. aggregate n ins = Inr r"
proof -
  from generate_market_comparison_ok [OF assms(1)] obtain mc where
    mc: "generate_market_comparison ins = Inr mc" by blast
  show ?thesis
  proof (cases "parsed_salaries ins = []")
    case True
    then show ?thesis using mc
      by (simp add: aggregate_def Let_def parsed_salaries_def)
  next
    case False
    have "\<forall>d \<in> set (parsed_salaries ins). \<exists>lo hi sr. d = full_salary lo hi sr"
      using assms(2) by (auto simp: parsed_salaries_def intro!: truthy_min_full)
    from aggregate_salary_data_full [OF False this] obtain s where
      "aggregate_salary_data (parsed_salaries ins) = Inr s" by blast
    then show ?thesis using mc False
      by (simp add: aggregate_def Let_def parsed_salaries_def)
  qed
qed

lemma analyze_ok:
  assumes "\<not> int (length ds) < m" and "ds \<noteq> []"
  shows "\<exists>r. analyze_multiple_descriptions slot nlp m ds w = (Inr r, w + length ds)"
proof -
  have ne: "fst (analyze_each slot nlp ds w) \<noteq> []"
    using assms(2) analyze_each_length [of slot nlp ds w] by auto
  have "\<forall>i \<in> set (fst (analyze_each slot nlp ds w)). salary_shape (i_salary_range i)"
    by (simp add: analyze_each_salary_shape)
  from aggregate_ok [OF ne this] obtain r where
    "aggregate (length ds) (fst (analyze_each slot nlp ds w)) = Inr r" by blast
  then show ?thesis using assms(1) analyze_each_work [of slot nlp ds w]
    by (auto simp: analyze_multiple_descriptions_def case_prod_beta)
qed

section \<open>The result of a batch\<close>

lemma insight_responsibilities:
  "responsibilities (fst (analyze_job_description slot nlp d k))
     = extract_sections (description d) (map u [''responsibilities'', ''duties'', ''what you''])"
  by (simp add: analyze_job_description_def Let_def)

lemma analyze_each_responsibilities:
  "map responsibilities (fst (analyze_each slot nlp ds w))
     = map (\<lambda>d. extract_sections (description d)
                   (map u [''responsibilities'', ''duties'', ''what you''])) ds"
  by (induction ds arbitrary: w) (simp_all add: case_prod_beta insight_responsibilities)

text \<open>The example batch, with the default minimum and without the enhanced backend.\<close>

lemma example_batch_accepted:
  "\<exists>r. analyze_multiple_descriptions added_order None default_min_required example_batch 0 = (Inr r, 3)"
proof -
  have "\<not> int (length example_batch) < default_min_required" "example_batch \<noteq> []"
    by (simp_all add: example_batch_def default_min_required_def)
  from analyze_ok [OF this, of added_order None 0]
  have "\<exists>r. analyze_multiple_descriptions added_order None default_min_required example_batch 0
              = (Inr r, 0 + length example_batch)" .
  moreover have "0 + length example_batch = 3"
    by (simp add: example_batch_def)
  ultimately show ?thesis by (simp only:)
qed

text \<open>
  Every posting of the two batches below is accepted by the constructor of job
  descriptions; in particular each has at least 50 words.
\<close>

lemma batches_valid:
  "list_all (\<lambda>p. JobDescription (title p) (company p) (location p) (salary_range p)
                   (description p) = Inr p) commission_batch"
  "list_all (\<lambda>p. JobDescription (title p) (company p) (location p) (salary_range p)
                   (description p) = Inr p) tied_batch"
  by code_simp+

lemma tied_found:
  "list_all (\<lambda>p. skill_found (u ''sql'') (lower (description p))) tied_batch"
  "list_all (\<lambda>p. skill_found (u ''agile'') (lower (description p))) tied_batch"
  by code_simp+

lemma insight_skills:
  "skills (fst (analyze_job_description slot None d k))
     = extract_skills_rules slot (lower (description d))"
  by (simp add: analyze_job_description_def Let_def)

lemma analyze_each_skills:
  "map skills (fst (analyze_each slot None ds w))
     = map (\<lambda>d. extract_skills_rules slot (lower (description d))) ds"
  by (induction ds arbitrary: w) (simp_all add: case_prod_beta insight_skills)

lemma first_listed:
  assumes "x \<in> set all_phrases" and "skill_found x txt"
    and "\<And>xs y. y \<noteq> x \<Longrightarrow> slot xs x < slot xs y"
  shows "hd (extract_skills_rules slot txt) = x"
  unfolding extract_skills_rules_def list_of_def
  by (rule hd_sort_key_least) (use assms in \<open>auto simp: set_found_skills\<close>)

lemma tied_batch_accepted:
  "\<exists>r. analyze_multiple_descriptions slot None default_min_required tied_batch 0 = (Inr r, 3)"
proof -
  have "\<not> int (length tied_batch) < default_min_required" "tied_batch \<noteq> []"
    by (simp_all add: tied_batch_def default_min_required_def)
  from analyze_ok [OF this, of slot None 0]
  have "\<exists>r. analyze_multiple_descriptions slot None default_min_required tied_batch 0
              = (Inr r, 0 + length tied_batch)" .
  moreover have "0 + length tied_batch = 3"
    by (simp add: tied_batch_def)
  ultimately show ?thesis by (simp only:)
qed

lemma tied_top:
  assumes r: "analyze_multiple_descriptions slot None default_min_required tied_batch 0 = (Inr r, 3)"
    and x: "x \<in> set all_phrases"
      "list_all (\<lambda>p. skill_found x (lower (description p))) tied_batch"
    and least: "\<And>xs y. y \<noteq> x \<Longrightarrow> slot xs x < slot xs y"
  shows "hd (common_skills r) = (x, 3)"
proof -
  let ?sk = "\<lambda>p. extract_skills_rules slot (lower (description p))"
  from analyze_Inr(1) [OF r]
  have "aggregate (length tied_batch) (fst (analyze_each slot None tied_batch 0)) = Inr r" .
  from aggregate_Inr(4) [OF this]
  have "common_skills r = most_common 50 (Counter (concat (map ?sk tied_batch)))"
    by (simp only: analyze_each_skills)
  then have c: "common_skills r
      = most_common 50 (Counter (concat [?sk posting_both, ?sk posting_data, ?sk posting_program]))"
    by (simp add: tied_batch_def)
  have f: "skill_found x (lower (description posting_both))"
      "skill_found x (lower (description posting_data))"
      "skill_found x (lower (description posting_program))"
    using x(2) by (simp_all add: tied_batch_def)
  show ?thesis
    unfolding c
  proof (rule top_of_three)
    show "hd (?sk posting_both) = x"
      by (rule first_listed [where slot = slot, OF x(1) f(1)]) (rule least)
  qed (use x(1) f in \<open>simp_all add: distinct_extract_skills_rules set_extract_skills_rules\<close>)
qed

lemma tied_responsibilities:
  assumes "analyze_multiple_descriptions slot None m ds w = (Inr r, k)"
    and "analyze_multiple_descriptions slot' None m ds w = (Inr r', k')"
  shows "common_responsibilities r = common_responsibilities r'"
    and "common_qualifications r = common_qualifications r'"
proof -
  note a = analyze_Inr(1) [OF assms(1)] and a' = analyze_Inr(1) [OF assms(2)]
  have q: "map qualifications (fst (analyze_each s None ds w))
      = map (\<lambda>d. extract_sections (description d)
                    (map u [''qualifications'', ''requirements'', ''you have''])) ds" for s
    by (induction ds arbitrary: w)
       (simp_all add: case_prod_beta analyze_job_description_def Let_def)
  show "common_responsibilities r = common_responsibilities r'"
    unfolding aggregate_Inr(5) [OF a] aggregate_Inr(5) [OF a']
    by (simp only: analyze_each_responsibilities)
  show "common_qualifications r = common_qualifications r'"
    unfolding aggregate_Inr(6) [OF a] aggregate_Inr(6) [OF a']
    by (simp only: q)
qed

lemma sql_agile_phrases: "u ''sql'' \<in> set all_phrases" "u ''agile'' \<in> set all_phrases"
  by code_simp+

text \<open>
  C7. The table of skills follows the order in which the sets of a run list their
  members, which the batch does not fix. The three postings of the batch all name SQL
  and Agile, so both skills are counted three times, and no skill more often. In a run
  whose sets list \<open>sql\<close> first the table starts with \<open>sql\<close>; in a run whose sets
  list \<open>agile\<close> first it starts with \<open>agile\<close>. The tables of responsibilities and
  qualifications are the same in both runs.
\<close>

theorem skill_ranking_follows_set_order:
  "list_all (\<lambda>p. JobDescription (title p) (company p) (location p) (salary_range p)
                   (description p) = Inr p) tied_batch \<and>
   (\<exists>r r'.
     analyze_multiple_descriptions sql_first None default_min_required tied_batch 0 = (Inr r, 3) \<and>
     analyze_multiple_descriptions agile_first None default_min_required tied_batch 0
       = (Inr r', 3) \<and>
     hd (common_skills r) = (u ''sql'', 3) \<and>
     hd (common_skills r') = (u ''agile'', 3) \<and>
     common_responsibilities r = common_responsibilities r' \<and>
     common_qualifications r = common_qualifications r')"
proof -
  from tied_batch_accepted obtain r where
    r: "analyze_multiple_descriptions sql_first None default_min_required tied_batch 0 = (Inr r, 3)"
    by blast
  from tied_batch_accepted obtain r' where
    r': "analyze_multiple_descriptions agile_first None default_min_required tied_batch 0
           = (Inr r', 3)"
    by blast
  have "hd (common_skills r) = (u ''sql'', 3)"
    by (rule tied_top [OF r sql_agile_phrases(1) tied_found(1)]) (simp add: sql_first_def)
  moreover have "hd (common_skills r') = (u ''agile'', 3)"
    by (rule tied_top [OF r' sql_agile_phrases(2) tied_found(2)]) (simp add: agile_first_def)
  ultimately show ?thesis
    using batches_valid(2) r r' tied_responsibilities [OF r r']
    by (intro exI [of _ r] exI [of _ r'] conjI)
qed

lemma commission_salaries:
  "map (\<lambda>d. extract_salary_info (salary_range d) (description d)) commission_batch
   = [[(''min'', VInt 0), (''max'', VInt 50000), (''average'', VInt 25000),
       (''range'', VStr (u ''$0 - $50k''))], [], []]"
  by code_simp

lemma commission_batch_accepted:
  "\<exists>r. analyze_multiple_descriptions slot nlp default_min_required commission_batch 0
          = (Inr r, 3)"
proof -
  have "\<not> int (length commission_batch) < default_min_required" "commission_batch \<noteq> []"
    by (simp_all add: commission_batch_def default_min_required_def)
  from analyze_ok [OF this, of slot nlp 0]
  have "\<exists>r. analyze_multiple_descriptions slot nlp default_min_required commission_batch 0
              = (Inr r, 0 + length commission_batch)" .
  moreover have "0 + length commission_batch = 3"
    by (simp add: commission_batch_def)
  ultimately show ?thesis by (simp only:)
qed

text \<open>
  C8. The first posting of the batch has a salary parsed in full, with a minimum of 0
  and a maximum of 50000, and the other two have none. The batch keeps for the summary
  the salaries whose \<open>min\<close> counts as true, which 0 does not: the summary is absent,
  where the summary of this one salary is the one stated last.
\<close>

theorem zero_minimum_left_out_of_summary:
  "list_all (\<lambda>p. JobDescription (title p) (company p) (location p) (salary_range p)
                   (description p) = Inr p) commission_batch \<and>
   (\<exists>r. analyze_multiple_descriptions slot nlp default_min_required commission_batch 0
          = (Inr r, 3) \<and>
       map i_salary_range (insights r)
         = [[(''min'', VInt 0), (''max'', VInt 50000), (''average'', VInt 25000),
             (''range'', VStr (u ''$0 - $50k''))], [], []] \<and>
       salary_insights r = None \<and>
       aggregate_salary_data
           [[(''min'', VInt 0), (''max'', VInt 50000), (''average'', VInt 25000),
             (''range'', VStr (u ''$0 - $50k''))]]
         = Inr [(''market_min'', VInt 0), (''market_max'', VInt 50000),
                (''average_min'', VInt 0), (''average_max'', VInt 50000),
                (''sample_size'', VInt 1)])"
proof -
  from commission_batch_accepted obtain r where
    r: "analyze_multiple_descriptions slot nlp default_min_required commission_batch 0
          = (Inr r, 3)"
    by blast
  from analyze_Inr(1) [OF r]
  have a: "aggregate (length commission_batch) (fst (analyze_each slot nlp commission_batch 0))
             = Inr r" .
  from aggregate_Inr(2) [OF a]
  have i: "map i_salary_range (insights r)
         = [[(''min'', VInt 0), (''max'', VInt 50000), (''average'', VInt 25000),
             (''range'', VStr (u ''$0 - $50k''))], [], []]"
    by (simp only: analyze_each_salaries commission_salaries)
  then have "parsed_salaries (insights r) = []"
    by (simp add: parsed_salaries_def get_def)
  with aggregate_Inr(2,7) [OF a] have n: "salary_insights r = None"
    by simp
  have s: "aggregate_salary_data
           [[(''min'', VInt 0), (''max'', VInt 50000), (''average'', VInt 25000),
             (''range'', VStr (u ''$0 - $50k''))]]
         = Inr [(''market_min'', VInt 0), (''market_max'', VInt 50000),
                (''average_min'', VInt 0), (''average_max'', VInt 50000),
                (''sample_size'', VInt 1)]"
    by (simp add: aggregate_salary_data_def field_values_def get_def)
  have "\<exists>r. analyze_multiple_descriptions slot nlp default_min_required commission_batch 0
          = (Inr r, 3) \<and>
       map i_salary_range (insights r)
         = [[(''min'', VInt 0), (''max'', VInt 50000), (''average'', VInt 25000),
             (''range'', VStr (u ''$0 - $50k''))], [], []] \<and>
       salary_insights r = None \<and>
       aggregate_salary_data
           [[(''min'', VInt 0), (''max'', VInt 50000), (''average'', VInt 25000),
             (''range'', VStr (u ''$0 - $50k''))]]
         = Inr [(''market_min'', VInt 0), (''market_max'', VInt 50000),
                (''average_min'', VInt 0), (''average_max'', VInt 50000),
                (''sample_size'', VInt 1)]"
    by (rule exI [of _ r]) (simp only: r i n s simp_thms)
  with batches_valid(1) show ?thesis ..
qed

text \<open>
  C10. Whenever a batch is analysed without error, \<open>market_comparison\<close> is present and
  holds the histogram of experience levels, the histogram of remote policies, and the
  common requirements with the list of top skills and the frequency of an education
  requirement, whatever \<open>salary_insights\<close> is and whatever skills were found.
\<close>

theorem market_comparison_present:
  assumes "analyze_multiple_descriptions slot nlp min_required descriptions work = (Inr r, work')"
  shows "\<exists>mc cr. market_comparison r = Some mc \<and>
     get mc ''experience_levels''
       = Some (VCounter (Counter (map experience_level (insights r)))) \<and>
     get mc ''remote_policies'' = Some (VCounter (Counter (map remote_policy (insights r)))) \<and>
     get mc ''common_requirements'' = Some (VDict cr) \<and>
     get cr ''top_skills''
       = Some (VList (map fst (most_common 10 (Counter (concat (map skills (insights r))))))) \<and>
     get cr ''education_requirement_frequency''
       = Some (VFloat (Fract (int (length (filter (\<lambda>i. required_education i \<noteq> []) (insights r))))
                             (int (length (insights r)))))"
proof -
  let ?ins = "fst (analyze_each slot nlp descriptions work)"
  from analyze_Inr(1) [OF assms] have a: "aggregate (length descriptions) ?ins = Inr r" .
  note ins = aggregate_Inr(2) [OF a] and ne = aggregate_Inr(1) [OF a]
  from aggregate_Inr(9) [OF a] obtain mc where
    mc: "generate_market_comparison ?ins = Inr mc" "market_comparison r = Some mc"
    by blast
  from generate_market_comparison_ok [OF ne] mc show ?thesis
    unfolding ins by auto
qed

theorem market_comparison_present_witness:
  "\<exists>r mc cr ts f.
     analyze_multiple_descriptions added_order None default_min_required example_batch 0 = (Inr r, 3) \<and>
     length (insights r) = 3 \<and>
     market_comparison r = Some mc \<and>
     get mc ''experience_levels''
       = Some (VCounter (Counter (map experience_level (insights r)))) \<and>
     get mc ''remote_policies'' = Some (VCounter (Counter (map remote_policy (insights r)))) \<and>
     get mc ''common_requirements'' = Some (VDict cr) \<and>
     get cr ''top_skills'' = Some (VList ts) \<and>
     get cr ''education_requirement_frequency'' = Some (VFloat f)"
proof -
  from example_batch_accepted obtain r where
    r: "analyze_multiple_descriptions added_order None default_min_required example_batch 0 = (Inr r, 3)"
    by blast
  note t = market_comparison_present [OF r]
  from analyze_Inr(1) [OF r]
  have "aggregate (length example_batch) (fst (analyze_each added_order None example_batch 0)) = Inr r" .
  from aggregate_Inr(2) [OF this]
  have "length (insights r) = length example_batch"
    by (simp only: analyze_each_length)
  then have "length (insights r) = 3"
    by (simp add: example_batch_def)
  with r t show ?thesis by blast
qed

section \<open>A match consumes a word of its pattern\<close>

lemma rest_capture: "rest (capture n st st') = rest st'" "pos (capture n st st') = pos st'"
  by (cases st'; simp add: capture_def rest_def pos_def)+

lemma advance_consumed:
  assumes "st' \<in> set (advance st)"
  shows "\<exists>x. rest st = [x] @ rest st' \<and> pos st' = pos st + length [x] \<and> next_is P st = P x"
  using assms
  by (cases st; cases "fst (snd (snd st))")
     (auto simp: advance_def rest_def pos_def next_is_def)

lemma ends_consumed: "st' \<in> set (ends ic r st) \<Longrightarrow> consumed ic r st st'"
proof (induction ic r st arbitrary: st' rule: ends.induct)
  case (1 ic st)
  then show ?case by (auto simp: consumed_def intro: matches.intros)
next
  case (2 ic c st)
  then have n: "next_is (\<lambda>x. chr_eq ic x c) st" and a: "st' \<in> set (advance st)"
    by (auto split: if_splits)
  from advance_consumed [OF a, of "\<lambda>x. chr_eq ic x c"] n show ?case
    unfolding consumed_def by (metis m_Chr)
next
  case (3 ic P st)
  then have n: "next_is P st" and a: "st' \<in> set (advance st)"
    by (auto split: if_splits)
  from advance_consumed [OF a, of P] n show ?case
    unfolding consumed_def by (metis m_Cls)
next
  case (4 ic a b st)
  from "4.prems" obtain st1 where s1: "st1 \<in> set (ends ic a st)" and s2: "st' \<in> set (ends ic b st1)"
    by auto
  from "4.IH"(1) [OF s1] obtain v where v: "rest st = v @ rest st1" "pos st1 = pos st + length v"
      "matches ic a v" unfolding consumed_def by blast
  from "4.IH"(2) [OF s1 s2] obtain w where w: "rest st1 = w @ rest st'" "pos st' = pos st1 + length w"
      "matches ic b w" unfolding consumed_def by blast
  have "rest st = (v @ w) @ rest st'" "pos st' = pos st + length (v @ w)"
    using v w by simp_all
  moreover have "matches ic (Seq a b) (v @ w)" using v w by (blast intro: m_Seq)
  ultimately show ?case unfolding consumed_def by blast
next
  case (5 ic a b st)
  from "5.prems" consider "st' \<in> set (ends ic a st)" | "st' \<in> set (ends ic b st)" by auto
  then show ?case
  proof cases
    case 1
    from "5.IH"(1) [OF 1] show ?thesis unfolding consumed_def by (auto intro: m_AltL)
  next
    case 2
    from "5.IH"(2) [OF 2] show ?thesis unfolding consumed_def by (auto intro: m_AltR)
  qed
next
  case (6 ic a st)
  from "6.prems" consider "st' \<in> set (ends ic a st)" | "st' = st" by auto
  then show ?case
  proof cases
    case 1
    from "6.IH" [OF 1] show ?thesis unfolding consumed_def by (auto intro: m_OptS)
  next
    case 2
    then show ?thesis unfolding consumed_def by (auto intro: m_OptN)
  qed
next
  case (7 ic a st)
  from "7.prems" consider
      (more) st1 where "st1 \<in> set (ends ic a st)" "length (rest st1) < length (rest st)"
        "st' \<in> set (ends ic (Star a) st1)"
    | (stop) "st' = st"
    by (subst (asm) ends.simps(7)) (auto simp del: ends.simps split: if_splits)
  then show ?case
  proof cases
    case more
    from "7.IH"(1) [OF more(1)] obtain v where v: "rest st = v @ rest st1"
        "pos st1 = pos st + length v" "matches ic a v" unfolding consumed_def by blast
    from "7.IH"(2) [OF more(1) more(2) more(3)] obtain w where w: "rest st1 = w @ rest st'"
        "pos st' = pos st1 + length w" "matches ic (Star a) w" unfolding consumed_def by blast
    have "rest st = (v @ w) @ rest st'" "pos st' = pos st + length (v @ w)"
      using v w by simp_all
    moreover have "matches ic (Star a) (v @ w)" using v w by (blast intro: m_StarS)
    ultimately show ?thesis unfolding consumed_def by blast
  next
    case stop
    then show ?thesis unfolding consumed_def by (auto intro: m_StarN)
  qed
next
  case (8 ic n a st)
  then obtain st1 where s1: "st1 \<in> set (ends ic a st)" and e: "st' = capture n st st1"
    by auto
  from "8.IH" [OF s1] show ?case
    unfolding consumed_def e rest_capture by (auto intro: m_Grp)
next
  case (9 ic st)
  then show ?case by (auto simp: consumed_def intro: matches.intros split: if_splits)
next
  case (10 ic st)
  then show ?case by (auto simp: consumed_def intro: matches.intros split: if_splits)
qed

section \<open>Parsing of salaries\<close>

inductive_cases matches_EmptyE: "matches ic Empty w"
inductive_cases matches_ChrE: "matches ic (Chr c) w"
inductive_cases matches_ClsE: "matches ic (Cls P) w"
inductive_cases matches_SeqE: "matches ic (Seq a b) w"
inductive_cases matches_AltE: "matches ic (Alt a b) w"
inductive_cases matches_OptE: "matches ic (Opt a) w"

lemma matches_Star_all:
  assumes "matches ic r w" and "r = Star a" and "\<And>v. matches ic a v \<Longrightarrow> list_all Q v"
  shows "list_all Q w"
  using assms by (induction rule: matches.induct) auto

lemma amount_rx_unfold:
  "amount_rx =
     Seq (Seq (Seq (Cls is_digit) Empty)
              (Opt (Seq (Cls is_digit) (Opt (Seq (Cls is_digit) Empty)))))
         (Seq (Star (Seq (Chr 44)
                 (Seq (Seq (Cls is_digit) (Seq (Cls is_digit) (Seq (Cls is_digit) Empty))) Empty)))
              (Seq (Opt (Alt (Chr 107) (Chr 75))) Empty))"
  by (simp add: amount_rx_def seqs_def rep_def ch_def digit_def eval_nat_numeral)

lemma matches_head:
  assumes "matches False (Seq (Seq (Cls is_digit) Empty)
              (Opt (Seq (Cls is_digit) (Opt (Seq (Cls is_digit) Empty))))) w"
  shows "w \<noteq> [] \<and> is_digit (hd w) \<and> list_all (\<lambda>c. is_digit c \<or> c = 44) w"
  using assms
  by (auto elim!: matches_SeqE matches_OptE matches_ClsE matches_EmptyE)

lemma matches_thousands:
  assumes "matches False (Seq (Chr 44)
                 (Seq (Seq (Cls is_digit) (Seq (Cls is_digit) (Seq (Cls is_digit) Empty))) Empty)) w"
  shows "list_all (\<lambda>c. is_digit c \<or> c = 44) w"
  using assms
  by (auto elim!: matches_SeqE matches_ChrE matches_ClsE matches_EmptyE simp: chr_eq_def)

lemma matches_suffix:
  assumes "matches False (Seq (Opt (Alt (Chr 107) (Chr 75))) Empty) w"
  shows "w = [] \<or> w = [107] \<or> w = [75]"
  using assms
  by (auto elim!: matches_SeqE matches_OptE matches_AltE matches_ChrE matches_EmptyE simp: chr_eq_def)

lemma matches_amount:
  assumes "matches False amount_rx w"
  shows "amount_like w"
proof -
  from assms obtain h t where w: "w = h @ t"
      and h: "matches False (Seq (Seq (Cls is_digit) Empty)
              (Opt (Seq (Cls is_digit) (Opt (Seq (Cls is_digit) Empty))))) h"
      and t: "matches False (Seq (Star (Seq (Chr 44)
                 (Seq (Seq (Cls is_digit) (Seq (Cls is_digit) (Seq (Cls is_digit) Empty))) Empty)))
              (Seq (Opt (Alt (Chr 107) (Chr 75))) Empty)) t"
    unfolding amount_rx_unfold by (auto elim: matches_SeqE)
  from t obtain m suf where t': "t = m @ suf"
      and m: "matches False (Star (Seq (Chr 44)
                 (Seq (Seq (Cls is_digit) (Seq (Cls is_digit) (Seq (Cls is_digit) Empty))) Empty))) m"
      and suf: "matches False (Seq (Opt (Alt (Chr 107) (Chr 75))) Empty) suf"
    by (auto elim: matches_SeqE)
  have "list_all (\<lambda>c. is_digit c \<or> c = 44) m"
    by (rule matches_Star_all [OF m refl]) (rule matches_thousands)
  with matches_head [OF h] have "h @ m \<noteq> []" "is_digit (hd (h @ m))"
      "list_all (\<lambda>c. is_digit c \<or> c = 44) (h @ m)"
    by auto
  moreover have "w = (h @ m) @ suf" using w t' by simp
  ultimately show ?thesis
    unfolding amount_like_def using matches_suffix [OF suf] by blast
qed

lemma digits_only:
  assumes "list_all (\<lambda>c. is_digit c \<or> c = 44) body"
  shows "list_all is_digit (remove_char 36 (remove_char 44 body))"
  using assms by (induction body) (auto simp: remove_char_def)

lemma digits_nonempty:
  assumes "body \<noteq> []" and "is_digit (hd body)"
  shows "remove_char 36 (remove_char 44 body) \<noteq> []"
  using assms by (cases body) (auto simp: remove_char_def is_digit_def)

lemma endswith_single: "endswith s [c] \<longleftrightarrow> s \<noteq> [] \<and> last s = c"
  by (cases s rule: rev_cases) (auto simp: endswith_def)

lemma parse_salary_amount:
  assumes "amount_like w"
  shows "\<exists>n. parse_salary w = Inr n"
proof -
  from assms obtain body suf where w: "w = body @ suf" and ne: "body \<noteq> []"
      and hd: "is_digit (hd body)" and all: "list_all (\<lambda>c. is_digit c \<or> c = 44) body"
      and suf: "suf = [] \<or> suf = [107] \<or> suf = [75]"
    unfolding amount_like_def by blast
  let ?d = "remove_char 36 (remove_char 44 body)"
  have d: "list_all is_digit ?d" "?d \<noteq> []"
    using digits_only [OF all] digits_nonempty [OF ne hd] by simp_all
  then have last: "is_digit (last ?d)"
    by (simp add: list_all_iff)
  have strip: "remove_char 36 (remove_char 44 w) = ?d @ suf"
    using suf w by (auto simp: remove_char_def)
  have k: "u ''k'' = [107]" "u ''K'' = [75]"
    by (simp_all add: u_def)
  from suf show ?thesis
  proof (elim disjE)
    assume "suf = []"
    moreover have "\<not> endswith ?d [107]" "\<not> endswith ?d [75]"
      using last d(2) by (auto simp: endswith_single is_digit_def)
    ultimately show ?thesis using strip d
      by (simp add: parse_salary_def k py_int_def)
  next
    assume "suf = [107]"
    then show ?thesis using strip d
      by (simp add: parse_salary_def k py_int_def endswith_single)
  next
    assume s: "suf = [75]"
    then show ?thesis using strip d
      by (simp add: parse_salary_def k py_int_def endswith_single)
  qed
qed


lemma caps_capture: "snd (snd (snd (capture n st st'))) n = Some (take (pos st' - pos st) (rest st))"
  by (cases st') (simp add: capture_def pos_def)

lemma in_concat_map: "x \<in> set (concat (map f xs)) \<Longrightarrow> \<exists>y \<in> set xs. x \<in> set (f y)"
  by auto

lemma amounts_token:
  assumes "st \<in> set (ends False amounts_rx st0)"
  shows "\<exists>g. snd (snd (snd st)) 1 = Some g \<and> amount_like g"
proof -
  have unf: "amounts_rx = Seq (Opt (Chr 36)) (Seq (Grp 1 amount_rx) Empty)"
    by (simp add: amounts_rx_def seqs_def ch_def)
  from assms have "st \<in> set (concat (map (ends False (Seq (Grp 1 amount_rx) Empty))
                                        (ends False (Opt (Chr 36)) st0)))"
    unfolding unf by (simp only: ends.simps)
  from in_concat_map [OF this]
  obtain st1 where "st \<in> set (ends False (Seq (Grp 1 amount_rx) Empty) st1)"
    by blast
  then have "st \<in> set (concat (map (ends False Empty) (map (capture 1 st1)
                                     (ends False amount_rx st1))))"
    by (simp only: ends.simps)
  from in_concat_map [OF this]
  have "st \<in> capture 1 st1 ` set (ends False amount_rx st1)"
    by (simp only: ends.simps set_map) simp
  then obtain st2 where st2: "st2 \<in> set (ends False amount_rx st1)"
      and st: "st = capture 1 st1 st2"
    by blast
  from ends_consumed [OF st2] obtain w where w: "rest st1 = w @ rest st2"
      "pos st2 = pos st1 + length w" "matches False amount_rx w"
    unfolding consumed_def by blast
  then have "take (pos st2 - pos st1) (rest st1) = w" by simp
  with matches_amount [OF w(3)] show ?thesis
    unfolding st caps_capture by simp
qed

lemma findall_tokens:
  assumes "t \<in> set (findall_from ic r i p cs)"
    and "\<And>st0 st. st \<in> set (ends ic r st0) \<Longrightarrow> \<exists>g. snd (snd (snd st)) 1 = Some g \<and> Q g"
  shows "Q t"
  using assms
proof (induction ic r i p cs rule: findall_from.induct)
  case (1 ic r i p)
  show ?case
  proof (cases "ends ic r (i, p, [], no_caps)")
    case Nil
    with "1.prems"(1) show ?thesis by simp
  next
    case (Cons st sts)
    then have "st \<in> set (ends ic r (i, p, [], no_caps))" by simp
    from "1.prems"(2) [OF this] Cons "1.prems"(1) show ?thesis by auto
  qed
next
  case (2 ic r i p c cs)
  show ?case
  proof (cases "ends ic r (i, p, c # cs, no_caps)")
    case Nil
    with "2.prems"(1) have "t \<in> set (findall_from ic r (Suc i) (Some c) cs)" by simp
    from "2.IH"(1) [OF Nil this "2.prems"(2)] show ?thesis .
  next
    case (Cons st sts)
    then have "st \<in> set (ends ic r (i, p, c # cs, no_caps))" by simp
    from "2.prems"(2) [OF this] obtain g where g: "snd (snd (snd st)) 1 = Some g" "Q g"
      by blast
    from "2.prems"(1) Cons g consider "t = g"
      | "length (rest st) < length (c # cs)"
        "t \<in> set (findall_from ic r (pos st) (fst (snd st)) (rest st))"
      | "\<not> length (rest st) < length (c # cs)"
        "t \<in> set (findall_from ic r (Suc i) (Some c) cs)"
      by (auto split: if_splits)
    then show ?thesis
    proof cases
      case 1
      with g show ?thesis by simp
    next
      case 2
      from "2.IH"(2) [OF Cons 2(1) 2(2) "2.prems"(2)] show ?thesis .
    next
      case 3
      from "2.IH"(3) [OF Cons 3(1) 3(2) "2.prems"(2)] show ?thesis .
    qed
  qed
qed

lemma tokens_parse:
  assumes "t \<in> set (re_findall False amounts_rx s)"
  shows "\<exists>n. parse_salary t = Inr n"
proof -
  from assms have "amount_like t"
    unfolding re_findall_def by (rule findall_tokens) (rule amounts_token)
  then show ?thesis by (rule parse_salary_amount)
qed


lemma salary_string_given: "sr \<noteq> [] \<Longrightarrow> salary_string (Some sr) txt = Some sr"
  by (simp add: salary_string_def)

lemma salary_info_cases:
  assumes "salary_string sr0 txt = Some sr" and "sr \<noteq> []"
  shows "length (re_findall False amounts_rx sr) < 2 \<Longrightarrow>
           extract_salary_info sr0 txt = [(''range'', VStr sr)]"
    and "2 \<le> length (re_findall False amounts_rx sr) \<Longrightarrow>
           \<exists>lo hi. parse_salary (re_findall False amounts_rx sr ! 0) = Inr lo \<and>
                   parse_salary (re_findall False amounts_rx sr ! 1) = Inr hi \<and>
                   extract_salary_info sr0 txt =
                     [(''min'', VInt lo), (''max'', VInt hi),
                      (''average'', VInt ((lo + hi) div 2)), (''range'', VStr sr)]"
proof -
  let ?ts = "re_findall False amounts_rx sr"
  show "extract_salary_info sr0 txt = [(''range'', VStr sr)]" if "length ?ts < 2"
  proof (cases ?ts)
    case Nil
    then show ?thesis using assms by (simp add: extract_salary_info_def)
  next
    case (Cons a0 more)
    with that have "more = []" by simp
    with Cons show ?thesis using assms by (simp add: extract_salary_info_def)
  qed
  show "\<exists>lo hi. parse_salary (?ts ! 0) = Inr lo \<and> parse_salary (?ts ! 1) = Inr hi \<and>
          extract_salary_info sr0 txt =
            [(''min'', VInt lo), (''max'', VInt hi),
             (''average'', VInt ((lo + hi) div 2)), (''range'', VStr sr)]"
    if "2 \<le> length ?ts"
  proof -
    from that obtain a0 a1 more where ts: "?ts = a0 # a1 # more"
      by (cases ?ts; cases "tl ?ts") auto
    then have "a0 \<in> set ?ts" "a1 \<in> set ?ts" by simp_all
    from tokens_parse [OF this(1)] tokens_parse [OF this(2)]
    obtain lo hi where "parse_salary a0 = Inr lo" "parse_salary a1 = Inr hi"
      by blast
    then show ?thesis using assms ts
      by (simp add: extract_salary_info_def)
  qed
qed

lemma parse_salary_digits:
  assumes "ds \<noteq> []" and "list_all is_digit ds"
  shows "parse_salary ds = Inr (digits_value ds)"
    and "parse_salary (ds @ u ''k'') = Inr (digits_value ds * 1000)"
    and "parse_salary (ds @ u ''K'') = Inr (digits_value ds * 1000)"
proof -
  have keep: "remove_char 36 (remove_char 44 ds) = ds"
    using assms(2) by (induction ds) (auto simp: remove_char_def is_digit_def)
  have k: "u ''k'' = [107]" "u ''K'' = [75]"
    by (simp_all add: u_def)
  have last: "is_digit (last ds)"
    using assms by (simp add: list_all_iff)
  then have no: "\<not> endswith ds [107]" "\<not> endswith ds [75]"
    using assms(1) by (auto simp: endswith_single is_digit_def)
  show "parse_salary ds = Inr (digits_value ds)"
    using assms keep no by (simp add: parse_salary_def k py_int_def)
  have "remove_char 36 (remove_char 44 (ds @ [107])) = ds @ [107]"
       "remove_char 36 (remove_char 44 (ds @ [75])) = ds @ [75]"
    using keep by (simp_all add: remove_char_def)
  then show "parse_salary (ds @ u ''k'') = Inr (digits_value ds * 1000)"
            "parse_salary (ds @ u ''K'') = Inr (digits_value ds * 1000)"
    using assms by (simp_all add: parse_salary_def k py_int_def endswith_single)
qed

lemma parse_salary_strips:
  "parse_salary s = parse_salary (filter (\<lambda>c. c \<noteq> 44 \<and> c \<noteq> 36) s)"
proof -
  have "remove_char 36 (remove_char 44 (filter (\<lambda>c. c \<noteq> 44 \<and> c \<noteq> 36) s))
          = remove_char 36 (remove_char 44 s)"
    by (induction s) (auto simp: remove_char_def)
  then show ?thesis by (simp add: parse_salary_def)
qed

lemma given_range_ignores_text:
  "sr \<noteq> [] \<Longrightarrow> extract_salary_info (Some sr) txt = extract_salary_info (Some sr) []"
  by (simp add: extract_salary_info_def salary_string_def)

text \<open>The three examples of the claim come out as it states them.\<close>

lemma salary_examples:
  "extract_salary_info (Some (u ''$120k - $150k'')) []
     = [(''min'', VInt 120000), (''max'', VInt 150000), (''average'', VInt 135000),
        (''range'', VStr (u ''$120k - $150k''))]"
  "extract_salary_info (Some (u ''$95,000-$110,000'')) []
     = [(''min'', VInt 95000), (''max'', VInt 110000), (''average'', VInt 102500),
        (''range'', VStr (u ''$95,000-$110,000''))]"
  "extract_salary_info (Some (u ''competitive'')) [] = [(''range'', VStr (u ''competitive''))]"
  by code_simp+

lemma undivided_tokens:
  "re_findall False amounts_rx (u ''$150000'') = [u ''150'', u ''000'']"
  "re_findall False amounts_rx (u ''$150,000'') = [u ''150,000'']"
  "re_findall False amounts_rx (u ''$150k'') = [u ''150k'']"
  by code_simp+

lemma undivided_amounts:
  "extract_salary_info (Some (u ''$150000'')) []
     = [(''min'', VInt 150), (''max'', VInt 0), (''average'', VInt 75),
        (''range'', VStr (u ''$150000''))]"
  "extract_salary_info (Some (u ''$150,000'')) [] = [(''range'', VStr (u ''$150,000''))]"
  "extract_salary_info (Some (u ''$150k'')) [] = [(''range'', VStr (u ''$150k''))]"
  "extract_salary_info (Some (u ''$150000 - $180000'')) []
     = [(''min'', VInt 150), (''max'', VInt 0), (''average'', VInt 75),
        (''range'', VStr (u ''$150000 - $180000''))]"
  by code_simp+

lemma nonempty_amounts:
  "u ''$150000'' \<noteq> []" "u ''$150,000'' \<noteq> []" "u ''$150k'' \<noteq> []"
  "u ''$150000 - $180000'' \<noteq> []"
  by (simp_all add: u_def)

text \<open>
  C4. The pattern of an amount takes at most three digits before it wants a comma, so
  an amount written without commas is cut after its third digit. In \<open>$150000\<close> it
  finds the two amounts \<open>150\<close> and \<open>000\<close>, and the one salary gets a minimum
  of 150, a maximum of 0 and an average of 75, where the same salary written
  \<open>$150,000\<close> or \<open>$150k\<close> keeps only its range. A range of two such amounts gets the
  same three numbers.
\<close>

theorem undivided_amount_read_as_two:
  "re_findall False amounts_rx (u ''$150000'') = [u ''150'', u ''000''] \<and>
   extract_salary_info (Some (u ''$150000'')) txt
     = [(''min'', VInt 150), (''max'', VInt 0), (''average'', VInt 75),
        (''range'', VStr (u ''$150000''))] \<and>
   extract_salary_info (Some (u ''$150,000'')) txt = [(''range'', VStr (u ''$150,000''))] \<and>
   extract_salary_info (Some (u ''$150k'')) txt = [(''range'', VStr (u ''$150k''))] \<and>
   extract_salary_info (Some (u ''$150000 - $180000'')) txt
     = [(''min'', VInt 150), (''max'', VInt 0), (''average'', VInt 75),
        (''range'', VStr (u ''$150000 - $180000''))]"
  using given_range_ignores_text [OF nonempty_amounts(1), of "txt"]
    given_range_ignores_text [OF nonempty_amounts(2), of "txt"]
    given_range_ignores_text [OF nonempty_amounts(3), of "txt"]
    given_range_ignores_text [OF nonempty_amounts(4), of "txt"]
  by (simp only: undivided_amounts undivided_tokens)

section \<open>Sections: the capture window\<close>

lemma flag_before_0: "\<not> flag_before kws ls 0"
  by (simp add: flag_before_def)

lemma flag_after_keyword:
  "has_keyword kws (strip (ls ! i)) \<Longrightarrow> flag_before kws ls (Suc i)"
  unfolding flag_before_def by (rule exI [of _ i]) auto

lemma window_open_step:
  assumes "\<not> has_keyword kws (strip (ls ! i))"
  shows "window_open kws ls i \<longleftrightarrow> flag_before kws ls i \<and> \<not> closes kws ls i"
  unfolding window_open_def flag_before_def
  by (metis le_eq_less_or_eq order_refl)

lemma flag_before_Suc:
  assumes "\<not> has_keyword kws (strip (ls ! i))"
  shows "flag_before kws ls (Suc i) \<longleftrightarrow> window_open kws ls i"
  unfolding window_open_def flag_before_def using assms
  by (metis less_Suc_eq less_Suc_eq_le)

lemma next_line_case:
  "(case drop (Suc i) ls of [] \<Rightarrow> False | nxt # _ \<Rightarrow> \<not> marker_start (strip nxt))
     \<longleftrightarrow> Suc i < length ls \<and> \<not> marker_start (strip (ls ! Suc i))"
  by (cases "Suc i < length ls") (simp_all add: Cons_nth_drop_Suc [symmetric])

lemma sections_loop_suffix:
  assumes "\<forall>l \<in> set ls. \<not> numbered (strip l)" and "i \<le> length ls"
  shows "sections_loop kws (flag_before kws ls i) (drop i ls)
           = concat (map (\<lambda>i. if \<not> has_keyword kws (strip (ls ! i)) \<and>
                                  window_open kws ls i \<and>
                                  bulleted (strip (ls ! i)) \<and> 20 < length (clean (strip (ls ! i)))
                               then [take 200 (clean (strip (ls ! i)))] else [])
                         [i..<length ls])"
  using assms(2)
proof (induction "length ls - i" arbitrary: i)
  case 0
  then show ?case by simp
next
  case (Suc n)
  then have i: "i < length ls" and n: "n = length ls - Suc i" "Suc i \<le> length ls"
    by simp_all
  note IH = Suc.hyps(1) [OF n]
  have d: "drop i ls = ls ! i # drop (Suc i) ls"
    using i by (simp add: Cons_nth_drop_Suc)
  have u: "[i..<length ls] = i # [Suc i..<length ls]"
    using i by (simp add: upt_conv_Cons)
  have nn: "\<not> numbered (strip (ls ! i))"
    using assms(1) i by simp
  show ?case
  proof (cases "has_keyword kws (strip (ls ! i))")
    case True
    then show ?thesis
      using IH flag_after_keyword [OF True] by (simp add: d u Let_def)
  next
    case False
    have w: "(if flag_before kws ls i \<and> strip (ls ! i) \<noteq> [] \<and> \<not> marker_start (strip (ls ! i))
                 \<and> (case drop (Suc i) ls of [] \<Rightarrow> False | nxt # _ \<Rightarrow> \<not> marker_start (strip nxt))
              then False else flag_before kws ls i) = window_open kws ls i"
      unfolding next_line_case window_open_step [OF False]
      using False by (auto simp: closes_def)
    show ?thesis
      unfolding d u sections_loop.simps Let_def w
      using False nn IH flag_before_Suc [OF False] by simp
  qed
qed

lemma sections_as_window:
  assumes "\<forall>l \<in> set (split_on newline txt). \<not> numbered (strip l)"
  shows "extract_sections txt kws
           = take 20 (captured_in_window kws (split_on newline txt))"
  using sections_loop_suffix [OF assms, of 0 kws]
  by (simp add: extract_sections_def captured_in_window_def flag_before_0)

lemma nice_loop_suffix:
  assumes "i \<le> length ls"
  shows "nice_loop (\<exists>j<i. has_keyword nice_keywords (ls ! j)) (drop i ls)
           = concat (map (\<lambda>i. if \<not> has_keyword nice_keywords (ls ! i) \<and>
                                  (\<exists>j<i. has_keyword nice_keywords (ls ! j)) \<and>
                                  bulleted (ls ! i) \<and> 10 < length (clean (strip (ls ! i)))
                               then [take 200 (clean (strip (ls ! i)))] else [])
                         [i..<length ls])"
  using assms
proof (induction "length ls - i" arbitrary: i)
  case 0
  then show ?case by simp
next
  case (Suc n)
  then have i: "i < length ls" and n: "n = length ls - Suc i" "Suc i \<le> length ls"
    by simp_all
  note IH = Suc.hyps(1) [OF n]
  have d: "drop i ls = ls ! i # drop (Suc i) ls"
    using i by (simp add: Cons_nth_drop_Suc)
  have u: "[i..<length ls] = i # [Suc i..<length ls]"
    using i by (simp add: upt_conv_Cons)
  have s: "(\<exists>j<Suc i. has_keyword nice_keywords (ls ! j))
             \<longleftrightarrow> has_keyword nice_keywords (ls ! i) \<or> (\<exists>j<i. has_keyword nice_keywords (ls ! j))"
    by (auto simp: less_Suc_eq)
  show ?case
  proof (cases "has_keyword nice_keywords (ls ! i)")
    case True
    then show ?thesis using IH s by (simp add: d u)
  next
    case False
    then show ?thesis using IH s by (simp add: d u Let_def)
  qed
qed

lemma nice_as_window:
  "extract_nice_to_have txt = take 10 (captured_after_keyword (split_on newline txt))"
  using nice_loop_suffix [of 0 "split_on newline txt"]
  by (simp add: extract_nice_to_have_def captured_after_keyword_def)

lemma sections_loop_items:
  "item \<in> set (sections_loop kws f ls) \<Longrightarrow> 20 < length item \<and> length item \<le> 200"
  by (induction kws f ls rule: sections_loop.induct)
     (auto simp: Let_def split: if_splits)

lemma nice_loop_items:
  "item \<in> set (nice_loop f ls) \<Longrightarrow> 10 < length item \<and> length item \<le> 200"
  by (induction f ls rule: nice_loop.induct)
     (auto simp: Let_def split: if_splits)

lemma sections_bounds:
  "length (extract_sections txt kws) \<le> 20"
  "item \<in> set (extract_sections txt kws) \<Longrightarrow> 20 < length item \<and> length item \<le> 200"
  using sections_loop_items [of item kws False "split_on newline txt"]
  by (auto simp: extract_sections_def dest: in_set_takeD)

lemma nice_bounds:
  "length (extract_nice_to_have txt) \<le> 10"
  "item \<in> set (extract_nice_to_have txt) \<Longrightarrow> 10 < length item \<and> length item \<le> 200"
  using nice_loop_items [of item False "split_on newline txt"]
  by (auto simp: extract_nice_to_have_def dest: in_set_takeD)

text \<open>What \<open>clean\<close> takes from a bulleted line.\<close>

lemma space_not_marker: "is_space c \<Longrightarrow> \<not> marker_char c"
  by (auto simp: is_space_def marker_char_def bullet_chars_def is_digit_def)

lemma bullet_not_space: "c \<in> set bullet_chars \<Longrightarrow> \<not> is_space c"
  by (auto simp: is_space_def bullet_chars_def)

lemma concat_singletons: "concat (map (\<lambda>x. [x]) xs) = xs"
  by (induction xs) auto

lemma ends_Seq_Empty: "ends ic (Seq a Empty) st = ends ic a st"
proof -
  have "ends ic Empty = (\<lambda>x. [x])"
    by (rule ext) simp
  then show ?thesis by (simp add: concat_singletons)
qed

lemma ends_Bol_nonzero: "pos st \<noteq> 0 \<Longrightarrow> ends ic (Seq Bol a) st = []"
  by simp

lemma delete_from_anchored:
  "k \<noteq> 0 \<Longrightarrow> delete_from ic (Seq Bol a) k p cs = cs"
  by (induction cs arbitrary: k p) (simp_all add: pos_def)

lemma marker_rx_unfold:
  "marker_rx = Seq Bol (Seq (Seq (Cls marker_char) (Star (Cls marker_char)))
                           (Seq (Seq (Cls is_space) (Star (Cls is_space))) Empty))"
  by (simp add: marker_rx_def seqs_def plus_def space_def)

lemma bullet_rx_unfold:
  "bullet_rx = Seq Bol (Seq (Cls (\<lambda>c. c \<in> set bullet_chars))
                           (Seq (Seq (Cls is_space) (Star (Cls is_space))) Empty))"
  by (simp add: bullet_rx_def seqs_def plus_def space_def one_of_def)

lemma bulleted_shape:
  assumes "bulleted line"
  shows "\<exists>b s cs. line = b # s # cs \<and> b \<in> set bullet_chars \<and> is_space s"
proof -
  from assms obtain st where "st \<in> set (ends False bullet_rx (start line))"
    by (auto simp: bulleted_def re_match_def split: list.splits)
  from ends_consumed [OF this] obtain w where w: "rest (start line) = w @ rest st"
      "matches False bullet_rx w"
    unfolding consumed_def by blast
  from w(2) obtain b s w' where "w = b # s # w'" "b \<in> set bullet_chars" "is_space s"
    unfolding bullet_rx_unfold
    by (auto elim!: matches_SeqE matches_ClsE matches.cases [of _ Bol] matches_EmptyE)
  with w(1) show ?thesis by (auto simp: start_def rest_def)
qed

lemma Star_nonempty: "ends ic (Star a) st \<noteq> []"
  by (subst ends.simps) simp

lemma ends_marker_rx_bullet:
  assumes "b \<in> set bullet_chars" and "is_space s"
  shows "ends False marker_rx (0, None, b # s # cs, no_caps)
           = ends False (Star (Cls is_space)) (Suc (Suc 0), Some s, cs, no_caps)"
proof -
  have m: "marker_char b" "\<not> marker_char s"
    using assms by (simp_all add: marker_char_def [of b] space_not_marker)
  have 1: "ends False (Seq (Cls marker_char) (Star (Cls marker_char))) (0, None, b # s # cs, no_caps)
             = [(Suc 0, Some b, s # cs, no_caps)]"
    using m
    by (simp add: ends.simps(7) [of _ _ "(Suc 0, Some b, s # cs, no_caps)"]
          next_is_def rest_def advance_def del: ends.simps(7))
  have 2: "ends False (Seq (Cls is_space) (Star (Cls is_space))) (Suc 0, Some b, s # cs, no_caps)
             = ends False (Star (Cls is_space)) (Suc (Suc 0), Some s, cs, no_caps)"
    using assms(2)
    by (simp add: next_is_def rest_def advance_def del: ends.simps(7))
  have "ends False marker_rx (0, None, b # s # cs, no_caps)
          = ends False (Seq (Seq (Cls marker_char) (Star (Cls marker_char)))
                            (Seq (Seq (Cls is_space) (Star (Cls is_space))) Empty))
                 (0, None, b # s # cs, no_caps)"
    unfolding marker_rx_unfold by (simp add: pos_def del: ends.simps(7))
  also have "\<dots> = ends False (Seq (Seq (Cls is_space) (Star (Cls is_space))) Empty)
                       (Suc 0, Some b, s # cs, no_caps)"
    by (simp only: ends.simps(4) [of _ "Seq (Cls marker_char) (Star (Cls marker_char))"] 1) simp
  also have "\<dots> = ends False (Star (Cls is_space)) (Suc (Suc 0), Some s, cs, no_caps)"
    by (simp only: ends_Seq_Empty 2)
  finally show ?thesis .
qed

lemma clean_bulleted:
  assumes "bulleted line"
  shows "\<exists>b sp. line = b # sp @ clean line \<and> b \<in> set bullet_chars \<and>
                 sp \<noteq> [] \<and> list_all is_space sp"
proof -
  from bulleted_shape [OF assms] obtain b s cs where l: "line = b # s # cs"
      and b: "b \<in> set bullet_chars" and s: "is_space s"
    by blast
  let ?st = "(Suc (Suc 0), Some s, cs, no_caps)"
  obtain st sts where e: "ends False (Star (Cls is_space)) ?st = st # sts"
    using Star_nonempty [of False "Cls is_space" ?st] by (cases "ends False (Star (Cls is_space)) ?st") auto
  then have "st \<in> set (ends False (Star (Cls is_space)) ?st)" by simp
  from ends_consumed [OF this] obtain w where w: "cs = w @ rest st" "pos st = 2 + length w"
      "matches False (Star (Cls is_space)) w"
    unfolding consumed_def by (auto simp: rest_def pos_def)
  have sp: "list_all is_space w"
    by (rule matches_Star_all [OF w(3) refl]) (auto elim: matches_ClsE)
  have len: "length (rest st) < Suc (Suc (length cs))"
    using w(1) by simp
  have "clean line = delete_from False marker_rx (pos st) (fst (snd st)) (rest st)"
    by (simp add: clean_def re_delete_def l ends_marker_rx_bullet [OF b s] e len
             del: ends.simps)
  also have "\<dots> = rest st"
    unfolding marker_rx_unfold using w(2) by (simp add: delete_from_anchored)
  finally have c: "clean line = rest st" .
  have "line = b # (s # w) @ clean line" using l w(1) c by simp
  moreover have "s # w \<noteq> []" "list_all is_space (s # w)" using s sp by simp_all
  ultimately show ?thesis using b by blast
qed

lemma apply_sections:
  "extract_sections
     (join_lines [u ''How to apply:'', u ''1. Send your portfolio to the hiring team''])
     (map u [''responsibilities'', ''duties'', ''what you''])
     = [u ''Send your portfolio to the hiring team'']"
  "\<not> has_keyword (map u [''responsibilities'', ''duties'', ''what you'']) (u ''How to apply:'')"
  "\<not> has_keyword (map u [''responsibilities'', ''duties'', ''what you''])
       (u ''1. Send your portfolio to the hiring team'')"
  "extract_nice_to_have
     (join_lines [u ''Nice to have:'', u ''We are a small team.'', u ''We work from Lisbon.'',
                  u ''- Free coffee and fresh fruit''])
     = [u ''Free coffee and fresh fruit'']"
  "\<not> bulleted (u ''We are a small team.'')" "\<not> bulleted (u ''We work from Lisbon.'')"
  by code_simp+

text \<open>
  C6. A numbered line is captured although no heading has opened a window: the loop
  tests \<open>in_section and bullet or numbered\<close>, which is read as
  \<open>(in_section and bullet) or numbered\<close>. And the window of the nice-to-have items,
  unlike that of the other sections, is never closed: the bulleted line after two lines
  that are not bulleted is still captured.
\<close>

theorem numbered_line_captured_outside_window:
  "extract_sections
     (join_lines [u ''How to apply:'', u ''1. Send your portfolio to the hiring team''])
     (map u [''responsibilities'', ''duties'', ''what you''])
     = [u ''Send your portfolio to the hiring team''] \<and>
   \<not> has_keyword (map u [''responsibilities'', ''duties'', ''what you'']) (u ''How to apply:'') \<and>
   \<not> has_keyword (map u [''responsibilities'', ''duties'', ''what you''])
       (u ''1. Send your portfolio to the hiring team'') \<and>
   extract_nice_to_have
     (join_lines [u ''Nice to have:'', u ''We are a small team.'', u ''We work from Lisbon.'',
                  u ''- Free coffee and fresh fruit''])
     = [u ''Free coffee and fresh fruit''] \<and>
   \<not> bulleted (u ''We are a small team.'') \<and> \<not> bulleted (u ''We work from Lisbon.'')"
  using apply_sections by (simp only: simp_thms)

end
